theory Spec2Isabelle
  imports Complex_Main
begin

section \<open>Grid evaluation drivers \<^verbatim>\<open>losslandscape.py\<close> and \<^verbatim>\<open>paramplane.py\<close>\<close>

text \<open>
  The two driver scripts share most of their code. Names prefixed \<open>ll_\<close> embed
  \<^verbatim>\<open>src/losslandscape.py\<close>, names prefixed \<open>pp_\<close> embed \<^verbatim>\<open>src/paramplane.py\<close>;
  unprefixed names embed code that is textually the same in both files.
  Exceptions are values of the type \<open>error\<close>; a function that can raise returns
  \<open>error + 'a\<close> with \<open>Inl\<close> for the exception.
\<close>

datatype error =
    InvalidShape      \<comment> \<open>\<^verbatim>\<open>ValueError('Vectors need to be 1D, ...')\<close>\<close>
  | InvalidOption     \<comment> \<open>\<^verbatim>\<open>ValueError('Unkown option ...')\<close>\<close>
  | AmbiguousInput    \<comment> \<open>\<^verbatim>\<open>ValueError('Cannot infer whether to project or map input.')\<close>\<close>
  | TorchError        \<comment> \<open>a \<^verbatim>\<open>RuntimeError\<close> raised inside a torch call\<close>
  | IndexError
  | ZeroDivisionError

subsection \<open>Grid builder (\<^verbatim>\<open>main\<close>, first lines)\<close>

text \<open>
  \<^verbatim>\<open>torch.meshgrid(X, Y, indexing='ij')\<close> stacked on the last axis: entry \<open>[i, j]\<close> is the pair
  \<open>(X[i], Y[j])\<close>. The sequences \<open>X\<close> and \<open>Y\<close> come from \<^verbatim>\<open>torch.arange\<close> on floats and
  are taken as given.
\<close>

definition meshgrid_ij :: "'a list \<Rightarrow> 'b list \<Rightarrow> ('a \<times> 'b) list list" where
  "meshgrid_ij X Y = map (\<lambda>x. map (\<lambda>y. (x, y)) Y) X"

text \<open>\<^verbatim>\<open>grid.reshape((-1, 2))\<close>: the rows one after the other (row-major).\<close>

definition grid_coords :: "'a list \<Rightarrow> 'b list \<Rightarrow> ('a \<times> 'b) list" where
  "grid_coords X Y = concat (meshgrid_ij X Y)"

text \<open>Python's \<^verbatim>\<open>xs[a:b]\<close> for \<open>0 \<le> a \<le> b\<close>.\<close>

definition slice :: "'a list \<Rightarrow> nat \<Rightarrow> nat \<Rightarrow> 'a list" where
  "slice xs a b = take (b - a) (drop a xs)"

text \<open>
  \<^verbatim>\<open>torch.tensor_split(input, sections)\<close> with an integer: the library's loop over
  \<open>split_idx\<close>, with \<open>min_split_size = size div sections\<close>,
  \<open>num_splits_one_extra = size mod sections\<close> and a running \<open>start_idx\<close>; it raises
  when \<open>sections \<le> 0\<close>.
\<close>

fun tensor_split_loop :: "'a list \<Rightarrow> nat \<Rightarrow> nat \<Rightarrow> nat \<Rightarrow> nat list \<Rightarrow> 'a list list" where
  "tensor_split_loop xs min_split_size num_splits_one_extra start_idx [] = []"
| "tensor_split_loop xs min_split_size num_splits_one_extra start_idx (split_idx # rest) =
     (let split_size = (if split_idx < num_splits_one_extra then min_split_size + 1
                        else min_split_size)
      in slice xs start_idx (start_idx + split_size)
         # tensor_split_loop xs min_split_size num_splits_one_extra (start_idx + split_size) rest)"

definition tensor_split :: "'a list \<Rightarrow> int \<Rightarrow> error + 'a list list" where
  "tensor_split xs sections =
     (if sections \<le> 0 then Inl TorchError
      else Inr (tensor_split_loop xs (length xs div nat sections) (length xs mod nat sections)
                  0 [0..<nat sections]))"

text \<open>
  \<^verbatim>\<open>losslandscape.main\<close>, lines 273-280: split, discard the empty chunks, then print
  \<^verbatim>\<open>len(coords[0])\<close>, which raises \<^verbatim>\<open>IndexError\<close> when no chunk is left. The result is the
  list handed to \<^verbatim>\<open>executor.map_array\<close>, one chunk per job.
\<close>

definition ll_chunks :: "'a list \<Rightarrow> 'b list \<Rightarrow> int \<Rightarrow> error + ('a \<times> 'b) list list" where
  "ll_chunks X Y num_jobs =
     (case tensor_split (grid_coords X Y) num_jobs of
        Inl e \<Rightarrow> Inl e
      | Inr coords \<Rightarrow>
          (case filter (\<lambda>c. c \<noteq> []) coords of
             [] \<Rightarrow> Inl IndexError
           | c # cs \<Rightarrow> Inr (c # cs)))"

text \<open>
  \<^verbatim>\<open>paramplane.main\<close>, lines 250-256: the same without the filter. The list has
  \<open>num_jobs \<ge> 1\<close> entries, so \<^verbatim>\<open>coords[0]\<close> exists.
\<close>

definition pp_chunks :: "'a list \<Rightarrow> 'b list \<Rightarrow> int \<Rightarrow> error + ('a \<times> 'b) list list" where
  "pp_chunks X Y num_jobs = tensor_split (grid_coords X Y) num_jobs"

subsection \<open>Grid reducer (\<^verbatim>\<open>main\<close>, last lines)\<close>

text \<open>
  A result record is a Python dict, modelled by its items in order (keys distinct); the
  accumulator \<^verbatim>\<open>out\<close> is a map from metric key to the values gathered so far. The
  argument of the gather functions is \<^verbatim>\<open>[job.results()[0] for job in jobs]\<close>: one list of
  records per job, in submission order.
\<close>

type_synonym ('k, 'v) result_record = "('k \<times> 'v) list"

text \<open>\<^verbatim>\<open>losslandscape.main\<close>, lines 305-311: append to a list per key.\<close>

definition ll_put :: "('k \<rightharpoonup> 'v list) \<Rightarrow> 'k \<times> 'v \<Rightarrow> ('k \<rightharpoonup> 'v list)" where
  "ll_put out kv =
     (case out (fst kv) of
        None \<Rightarrow> out(fst kv \<mapsto> [] @ [snd kv])
      | Some vs \<Rightarrow> out(fst kv \<mapsto> vs @ [snd kv]))"

definition ll_gather :: "('k, 'v) result_record list list \<Rightarrow> ('k \<rightharpoonup> 'v list)" where
  "ll_gather results =
     foldl (\<lambda>out job. foldl (\<lambda>out res. foldl ll_put out res) out job) Map.empty results"

text \<open>
  \<^verbatim>\<open>paramplane.main\<close>, lines 278-284: a zero tensor with \<open>len(X)*len(Y)\<close> rows per key,
  written at row \<^verbatim>\<open>idx+sub_idx\<close>. Writing past the last row raises \<^verbatim>\<open>IndexError\<close>.
\<close>

fun foldl_err :: "('s \<Rightarrow> 'a \<Rightarrow> error + 's) \<Rightarrow> 's \<Rightarrow> 'a list \<Rightarrow> error + 's" where
  "foldl_err f s [] = Inr s"
| "foldl_err f s (x # xs) = (case f s x of Inl e \<Rightarrow> Inl e | Inr s' \<Rightarrow> foldl_err f s' xs)"

definition pp_put :: "nat \<Rightarrow> nat \<Rightarrow> ('k \<rightharpoonup> 'v::zero list) \<Rightarrow> 'k \<times> 'v \<Rightarrow> error + ('k \<rightharpoonup> 'v list)" where
  "pp_put n row out kv =
     (let t = (case out (fst kv) of None \<Rightarrow> replicate n 0 | Some t \<Rightarrow> t)
      in if row < length t then Inr (out(fst kv \<mapsto> t[row := snd kv])) else Inl IndexError)"

definition pp_gather ::
  "nat \<Rightarrow> ('k, 'v::zero) result_record list list \<Rightarrow> error + ('k \<rightharpoonup> 'v list)" where
  "pp_gather n results =
     foldl_err (\<lambda>out (idx, job).
        foldl_err (\<lambda>out (sub_idx, res). foldl_err (pp_put n (idx + sub_idx)) out res)
          out (zip [0..<length job] job))
       Map.empty (zip [0..<length results] results)"

text \<open>
  \<^verbatim>\<open>flat.reshape((len(X), len(Y), -1))\<close> on the flat element sequence: it raises when
  \<open>len(X)*len(Y)\<close> is zero or does not divide the number of elements; otherwise cell
  \<open>[i, j]\<close> holds the \<open>q\<close> consecutive elements from \<open>(i*len(Y) + j) * q\<close> on.
\<close>

definition reshape_xy :: "nat \<Rightarrow> nat \<Rightarrow> 'v list \<Rightarrow> error + 'v list list list" where
  "reshape_xy lx ly flat =
     (if lx * ly = 0 \<or> length flat mod (lx * ly) \<noteq> 0 then Inl TorchError
      else let q = length flat div (lx * ly)
           in Inr (map (\<lambda>i. map (\<lambda>j. slice flat ((i * ly + j) * q) ((i * ly + j) * q + q))
                                 [0..<ly]) [0..<lx]))"

subsection \<open>Shapes of the saved tensors\<close>

text \<open>
  Shapes are lists of axis lengths. \<^verbatim>\<open>reshape((len(X), len(Y), -1))\<close> on a tensor of shape
  \<open>s\<close>, and \<^verbatim>\<open>squeeze()\<close> without an axis, which removes every axis of length one.
\<close>

definition shape_numel :: "nat list \<Rightarrow> nat" where
  "shape_numel s = prod_list s"

definition reshape_xy_shape :: "nat \<Rightarrow> nat \<Rightarrow> nat list \<Rightarrow> error + nat list" where
  "reshape_xy_shape lx ly s =
     (if lx * ly = 0 \<or> shape_numel s mod (lx * ly) \<noteq> 0 then Inl TorchError
      else Inr [lx, ly, shape_numel s div (lx * ly)])"

definition squeeze :: "nat list \<Rightarrow> nat list" where
  "squeeze s = filter (\<lambda>d. d \<noteq> 1) s"

text \<open>
  \<^verbatim>\<open>losslandscape.main\<close>, line 315: \<open>n\<close> gathered values of shape \<open>s\<close> each are stacked to
  shape \<open>n # s\<close> (\<^verbatim>\<open>torch.stack\<close> raises on an empty list), reshaped and squeezed.
\<close>

definition ll_saved_shape :: "nat \<Rightarrow> nat \<Rightarrow> nat \<Rightarrow> nat list \<Rightarrow> error + nat list" where
  "ll_saved_shape lx ly n s =
     (if n = 0 then Inl TorchError
      else case reshape_xy_shape lx ly (n # s) of
             Inl e \<Rightarrow> Inl e
           | Inr s' \<Rightarrow> Inr (squeeze s'))"

text \<open>
  \<^verbatim>\<open>paramplane.main\<close>, lines 283 and 288: the tensor is allocated with shape
  \<open>(len(X)*len(Y), *val.shape)\<close> and reshaped, with no squeeze.
\<close>

definition pp_saved_shape :: "nat \<Rightarrow> nat \<Rightarrow> nat list \<Rightarrow> error + nat list" where
  "pp_saved_shape lx ly s = reshape_xy_shape lx ly ((lx * ly) # s)"

subsection \<open>Progress tracking (\<^verbatim>\<open>losslandscape.py\<close>)\<close>

text \<open>
  \<^verbatim>\<open>parse_tqdm_state\<close>, lines 263-269. The file is \<open>None\<close> when \<^verbatim>\<open>open\<close> raises and the list
  of its lines otherwise; \<open>findall\<close> stands for \<^verbatim>\<open>re.findall\<close> with the pattern of line 267
  followed by \<^verbatim>\<open>int\<close> (every match is a run of digits). Each failing step is caught by the
  bare \<^verbatim>\<open>except\<close>, which returns 0.
\<close>

definition parse_tqdm_state :: "(string \<Rightarrow> nat list) \<Rightarrow> string list option \<Rightarrow> nat" where
  "parse_tqdm_state findall file =
     (case file of
        None \<Rightarrow> 0
      | Some lines \<Rightarrow>
          (case rev lines of
             [] \<Rightarrow> 0
           | lastline # _ \<Rightarrow>
               (case rev (findall lastline) of
                  [] \<Rightarrow> 0
                | m # _ \<Rightarrow> m)))"

text \<open>What the orchestrator sees of one job at one poll: \<^verbatim>\<open>job.done()\<close> and the file
  \<^verbatim>\<open>job.paths.stderr\<close>.\<close>

record job_view =
  job_done :: bool
  job_stderr :: "string list option"

text \<open>
  \<^verbatim>\<open>main\<close>, lines 294-302. Each element of the list is what the jobs look like at one
  evaluation of the loop condition. The result is the sequence of values assigned to
  \<^verbatim>\<open>pbar.n\<close>, in order, ending with the assignment after the loop; it is \<open>None\<close> when the
  polls run out while some job is still not done (the loop has not ended).
\<close>

definition parsed_total :: "(string \<Rightarrow> nat list) \<Rightarrow> job_view list \<Rightarrow> nat" where
  "parsed_total findall jobs = sum_list (map (\<lambda>job. parse_tqdm_state findall (job_stderr job)) jobs)"

fun track_progress :: "(string \<Rightarrow> nat list) \<Rightarrow> nat \<Rightarrow> job_view list list \<Rightarrow> nat list option" where
  "track_progress findall n [] = None"
| "track_progress findall n (jobs # later) =
     (if list_ex (\<lambda>job. \<not> job_done job) jobs
      then (let n' = max n (parsed_total findall jobs)
            in map_option ((#) n') (track_progress findall n' later))
      else Some [parsed_total findall jobs])"

subsection \<open>Loss accumulation (\<^verbatim>\<open>losslandscape.py\<close>)\<close>

text \<open>
  The loss functions of \<^verbatim>\<open>dinopl.utils\<close> and of \<^verbatim>\<open>torch.nn.functional\<close> are not part of the
  sources; they are the fields of a record that the functions below take as a parameter.
  \<open>'t\<close> is the type of tensors of logits, \<open>'a\<close> the type of accumulated values; \<open>tdiv\<close> is
  the division of an accumulated value by the example count.
\<close>

record ('t, 'a) loss_lib =
  mean_squared_error :: "'t \<Rightarrow> 't \<Rightarrow> 't"
  cross_entropy :: "'t \<Rightarrow> 't \<Rightarrow> 't"
  entropy :: "'t \<Rightarrow> 't \<Rightarrow> 't"
  log_softmax :: "'t \<Rightarrow> 't"
  softmax :: "'t \<Rightarrow> 't"
  texp :: "'t \<Rightarrow> 't"
  tsum :: "'t \<Rightarrow> 'a"
  tdiv :: "'a \<Rightarrow> nat \<Rightarrow> 'a"

text \<open>The dict \<^verbatim>\<open>{'MSE':0, 'CE':0, 'KL':0, 'H':0}\<close>.\<close>

record 'a losses =
  loss_MSE :: 'a
  loss_CE :: 'a
  loss_KL :: 'a
  loss_H :: 'a

definition losses_init :: "'a::zero losses" where
  "losses_init = \<lparr>loss_MSE = 0, loss_CE = 0, loss_KL = 0, loss_H = 0\<rparr>"

text \<open>\<^verbatim>\<open>losses.items()\<close>, in insertion order.\<close>

definition losses_items :: "'a losses \<Rightarrow> (string \<times> 'a) list" where
  "losses_items l = [(''MSE'', loss_MSE l), (''CE'', loss_CE l), (''KL'', loss_KL l), (''H'', loss_H l)]"

text \<open>\<^verbatim>\<open>update_losses\<close>, lines 143-150, on the logits of the student and of the teacher.\<close>

definition update_losses :: "('t, 'a::plus) loss_lib \<Rightarrow> 't \<Rightarrow> 't \<Rightarrow> 'a losses \<Rightarrow> 'a losses" where
  "update_losses L student_logits teacher_logits losses0 =
     (let preds = student_logits;
          targs = teacher_logits;
          losses1 = losses0\<lparr>loss_MSE := loss_MSE losses0 + tsum L (mean_squared_error L preds targs)\<rparr>;
          log_preds = log_softmax L student_logits;
          targs = softmax L teacher_logits;
          losses2 = losses1\<lparr>loss_CE := loss_CE losses1 + tsum L (cross_entropy L log_preds targs)\<rparr>;
          losses3 = losses2\<lparr>loss_KL := loss_KL losses2 + tsum L (cross_entropy L log_preds targs)\<rparr>
      in losses3\<lparr>loss_H := loss_H losses3 + tsum L (entropy L (texp L log_preds) log_preds)\<rparr>)"

text \<open>
  One pass over a data loader (lines 157-169 and 176-189): a batch is its input and the
  number of its labels; the models are functions from an input to logits.
\<close>

fun run_batches ::
  "('t, 'a::plus) loss_lib \<Rightarrow> ('x \<Rightarrow> 't) \<Rightarrow> ('x \<Rightarrow> 't) \<Rightarrow> ('x \<times> nat) list \<Rightarrow> 'a losses \<times> nat
     \<Rightarrow> 'a losses \<times> nat" where
  "run_batches L student teacher [] (losses, numel) = (losses, numel)"
| "run_batches L student teacher (batch # rest) (losses, numel) =
     (let teacher_out = teacher (fst batch);
          student_out = student (fst batch)
      in run_batches L student teacher rest
           (update_losses L student_out teacher_out losses, numel + snd batch))"

text \<open>
  Lines 171-172 and 191-192: the averages under the keys \<^verbatim>\<open>train/<name>\<close> or
  \<^verbatim>\<open>valid/<name>\<close>. With no batch every loss is still the integer 0 and so is \<^verbatim>\<open>numel\<close>:
  the division raises \<^verbatim>\<open>ZeroDivisionError\<close>.
\<close>

definition store_averages ::
  "('t, 'a) loss_lib \<Rightarrow> string \<Rightarrow> ('x \<times> nat) list \<Rightarrow> 'a losses \<times> nat \<Rightarrow> (string \<rightharpoonup> 'a)
     \<Rightarrow> error + (string \<rightharpoonup> 'a)" where
  "store_averages L prefix dl acc out =
     (if dl = [] then Inl ZeroDivisionError
      else Inr (foldl (\<lambda>out (loss_name, loss_value). out(prefix @ loss_name \<mapsto> tdiv L loss_value (snd acc)))
                  out (losses_items (fst acc))))"

text \<open>
  \<^verbatim>\<open>eval_student\<close>, lines 153-205. The prober is an external collaborator: its two results
  (before and after \<^verbatim>\<open>normalize_data\<close>) are parameters, given as the items of the dicts it
  returns.
\<close>

definition store_probe :: "string \<Rightarrow> (string \<times> 'a) list \<Rightarrow> (string \<rightharpoonup> 'a) \<Rightarrow> (string \<rightharpoonup> 'a)" where
  "store_probe prefix probe out = foldl (\<lambda>out (key, val). out(prefix @ key \<mapsto> val)) out probe"

definition eval_student ::
  "('t, 'a::{zero,plus}) loss_lib \<Rightarrow> ('x \<Rightarrow> 't) \<Rightarrow> ('x \<Rightarrow> 't) \<Rightarrow> (string \<times> 'a) list \<Rightarrow> (string \<times> 'a) list
     \<Rightarrow> ('x \<times> nat) list \<Rightarrow> ('x \<times> nat) list \<Rightarrow> error + (string \<rightharpoonup> 'a)" where
  "eval_student L student teacher probe probe_norm train_dl valid_dl =
     (case store_averages L ''train/'' train_dl
             (run_batches L student teacher train_dl (losses_init, 0)) Map.empty of
        Inl e \<Rightarrow> Inl e
      | Inr out1 \<Rightarrow>
          (case store_averages L ''valid/'' valid_dl
                  (run_batches L student teacher valid_dl (losses_init, 0)) out1 of
             Inl e \<Rightarrow> Inl e
           | Inr out2 \<Rightarrow>
               Inr (store_probe ''probe/norm/'' probe_norm (store_probe ''probe/'' probe out2))))"

text \<open>
  \<^verbatim>\<open>eval_coords\<close>, lines 253-258: the record of one coordinate is the dict of
  \<^verbatim>\<open>eval_student\<close> with the keys \<^verbatim>\<open>coord\<close> and \<^verbatim>\<open>l2norm\<close> added.
\<close>

definition ll_result_record :: "(string \<rightharpoonup> 'a) \<Rightarrow> 'a \<Rightarrow> 'a \<Rightarrow> (string \<rightharpoonup> 'a)" where
  "ll_result_record out coord l2norm = out(''coord'' \<mapsto> coord, ''l2norm'' \<mapsto> l2norm)"

subsection \<open>ParamProjector: argument checks of the constructors\<close>

text \<open>
  The explicit \<^verbatim>\<open>raise\<close> statements at the head of \<^verbatim>\<open>__init__\<close>, in the order of the source.
  \<open>d0\<close>, \<open>d1\<close>, \<open>d2\<close> are \<^verbatim>\<open>vec0.dim()\<close>, \<^verbatim>\<open>vec1.dim()\<close>, \<^verbatim>\<open>vec2.dim()\<close>; an option is \<open>None\<close>
  for Python's \<^verbatim>\<open>None\<close> and \<open>Some s\<close> for the string \<open>s\<close>.
  \<^verbatim>\<open>losslandscape.py\<close>, lines 31-36:
\<close>

definition ll_init_checks :: "nat \<Rightarrow> nat \<Rightarrow> nat \<Rightarrow> string option \<Rightarrow> string option \<Rightarrow> error option" where
  "ll_init_checks d0 d1 d2 center scale =
     (if d0 > 1 \<or> d1 > 1 \<or> d2 > 1 then Some InvalidShape
      else if center \<notin> {None, Some '''', Some ''mean'', Some ''minnorm''} then Some InvalidOption
      else if scale \<notin> {None, Some '''', Some ''l2_ortho'', Some ''rms_ortho''} then Some InvalidOption
      else None)"

text \<open>\<^verbatim>\<open>paramplane.py\<close>, lines 82-85:\<close>

definition pp_init_checks :: "nat \<Rightarrow> nat \<Rightarrow> nat \<Rightarrow> string option \<Rightarrow> string option \<Rightarrow> error option" where
  "pp_init_checks d0 d1 d2 center scale =
     (if center \<notin> {None, Some '''', Some ''mean'', Some ''minnorm''} then Some InvalidOption
      else if scale \<notin> {None, Some '''', Some ''l2_ortho'', Some ''rms_ortho''} then Some InvalidOption
      else None)"

subsection \<open>ParamProjector: vectors and the torch operations used\<close>

text \<open>
  A parameter vector is a 1-D tensor, modelled as the list of its entries over the real
  numbers (the code computes in floating point; rounding is outside this model). A
  \<open>D \<times> 2\<close> matrix is the pair of its columns. Each operation raises where torch does: on
  shapes that neither agree nor broadcast.
\<close>

type_synonym vec = "real list"
type_synonym mat2 = "vec \<times> vec"

definition bind_err :: "error + 'a \<Rightarrow> ('a \<Rightarrow> error + 'b) \<Rightarrow> error + 'b" where
  "bind_err m f = (case m of Inl e \<Rightarrow> Inl e | Inr x \<Rightarrow> f x)"

text \<open>An elementwise operation on two 1-D tensors, with broadcasting of a length-one operand.\<close>

definition bcast :: "(real \<Rightarrow> real \<Rightarrow> real) \<Rightarrow> vec \<Rightarrow> vec \<Rightarrow> error + vec" where
  "bcast f a b =
     (if length a = length b then Inr (map2 f a b)
      else if length b = 1 then Inr (map (\<lambda>x. f x (hd b)) a)
      else if length a = 1 then Inr (map (\<lambda>y. f (hd a) y) b)
      else Inl TorchError)"

definition vadd :: "vec \<Rightarrow> vec \<Rightarrow> error + vec" where
  "vadd a b = bcast (+) a b"

definition vsub :: "vec \<Rightarrow> vec \<Rightarrow> error + vec" where
  "vsub a b = bcast (-) a b"

definition dot :: "vec \<Rightarrow> vec \<Rightarrow> real" where
  "dot a b = sum_list (map2 (*) a b)"

text \<open>\<^verbatim>\<open>torch.stack([vec1, vec2], dim=1)\<close>: the operands must have one shape.\<close>

definition stack2 :: "vec \<Rightarrow> vec \<Rightarrow> error + mat2" where
  "stack2 v1 v2 = (if length v1 = length v2 then Inr (v1, v2) else Inl TorchError)"

text \<open>\<^verbatim>\<open>B - a.unsqueeze(1)\<close>: the vector is subtracted from each column.\<close>

definition mat_sub_col :: "mat2 \<Rightarrow> vec \<Rightarrow> error + mat2" where
  "mat_sub_col B a =
     bind_err (vsub (fst B) a) (\<lambda>c1. bind_err (vsub (snd B) a) (\<lambda>c2. Inr (c1, c2)))"

text \<open>\<^verbatim>\<open>B @ coord\<close> for a \<open>D \<times> 2\<close> matrix: \<open>coord\<close> must have two entries.\<close>

definition mat_vec :: "mat2 \<Rightarrow> vec \<Rightarrow> error + vec" where
  "mat_vec B coord =
     (if length coord = 2
      then Inr (map2 (\<lambda>x y. x * coord ! 0 + y * coord ! 1) (fst B) (snd B))
      else Inl TorchError)"

text \<open>\<^verbatim>\<open>B.T @ v\<close>: \<open>v\<close> must have as many entries as the matrix has rows.\<close>

definition matT_vec :: "mat2 \<Rightarrow> vec \<Rightarrow> error + vec" where
  "matT_vec B v =
     (if length v = length (fst B) then Inr [dot (fst B) v, dot (snd B) v] else Inl TorchError)"

text \<open>
  \<^verbatim>\<open>torch.linalg.lstsq(A, y).solution\<close> for a \<open>D \<times> 2\<close> matrix in exact arithmetic: the
  least-squares solution of minimal norm. With independent columns (the determinant \<open>d\<close>
  of the Gram matrix is not zero) it is the unique least-squares solution, given by the
  normal equations; for a matrix of rank one it is \<open>A.T @ y\<close> over the squared Frobenius
  norm; for the zero matrix it is zero.
\<close>

definition lstsq :: "mat2 \<Rightarrow> vec \<Rightarrow> error + vec" where
  "lstsq A y =
     (if length y \<noteq> length (fst A) then Inl TorchError
      else let p = dot (fst A) (fst A); q = dot (fst A) (snd A); r = dot (snd A) (snd A);
               u = dot (fst A) y; v = dot (snd A) y; d = p * r - q * q
           in if d \<noteq> 0 then Inr [(r * u - q * v) / d, (p * v - q * u) / d]
              else if p + r \<noteq> 0 then Inr [u / (p + r), v / (p + r)]
              else Inr [0, 0])"

subsection \<open>ParamProjector: state and constructor\<close>

text \<open>
  The attributes set by \<^verbatim>\<open>__init__\<close>. \<^verbatim>\<open>paramplane.py\<close> stores \<^verbatim>\<open>affine_inv\<close> in addition.
\<close>

record projector =
  p_center :: "string option"
  p_scale :: "string option"
  p_dim :: nat
  p_affine :: vec
  p_basis :: mat2

record pp_projector = projector +
  p_affine_inv :: vec

text \<open>\<^verbatim>\<open>self.scale in {'l2_ortho', 'rms_ortho'}\<close>\<close>

definition is_ortho :: "string option \<Rightarrow> bool" where
  "is_ortho scale = (scale \<in> {Some ''l2_ortho'', Some ''rms_ortho''})"

text \<open>
  The affine offset and the basis before the scaling step (\<^verbatim>\<open>losslandscape.py\<close> lines
  41-51, \<^verbatim>\<open>paramplane.py\<close> lines 90-100, the same text).
\<close>

definition init_affine_basis :: "vec \<Rightarrow> vec \<Rightarrow> vec \<Rightarrow> string option \<Rightarrow> error + vec \<times> mat2" where
  "init_affine_basis vec0 vec1 vec2 center =
     bind_err (if center = Some ''mean''
               then bind_err (vadd vec0 vec1) (\<lambda>s01. bind_err (vadd s01 vec2)
                      (\<lambda>s012. Inr (map (\<lambda>x. x / 3) s012)))
               else Inr vec0) (\<lambda>affine.
     bind_err (stack2 vec1 vec2) (\<lambda>basis.
     bind_err (mat_sub_col basis affine) (\<lambda>basis.
     if center = Some ''minnorm''
     then bind_err (lstsq basis (map uminus affine)) (\<lambda>solution.
          bind_err (mat_vec basis solution) (\<lambda>offset.
          bind_err (vadd affine offset) (\<lambda>affine'.
          bind_err (mat_sub_col basis offset) (\<lambda>basis'.
          Inr (affine', basis')))))
     else Inr (affine, basis))))"

text \<open>
  \<^verbatim>\<open>losslandscape.ParamProjector.__init__\<close> on 1-D tensors (so each \<^verbatim>\<open>dim()\<close> is 1).
  \<open>svd_U\<close> stands for \<^verbatim>\<open>torch.linalg.svd(B, full_matrices=False).U\<close>, which is determined
  only up to the signs of its columns; it is a parameter, and \<open>svd_left\<close> below is one
  function that may stand for it.
\<close>

definition ll_ParamProjector ::
  "(mat2 \<Rightarrow> mat2) \<Rightarrow> vec \<Rightarrow> vec \<Rightarrow> vec \<Rightarrow> string option \<Rightarrow> string option \<Rightarrow> error + projector" where
  "ll_ParamProjector svd_U vec0 vec1 vec2 center scale =
     (case ll_init_checks 1 1 1 center scale of
        Some e \<Rightarrow> Inl e
      | None \<Rightarrow>
          bind_err (init_affine_basis vec0 vec1 vec2 center) (\<lambda>(affine, basis).
          Inr \<lparr>p_center = center, p_scale = scale, p_dim = length vec0, p_affine = affine,
               p_basis = (if is_ortho scale then svd_U basis else basis)\<rparr>))"

text \<open>\<^verbatim>\<open>paramplane.ParamProjector.__init__\<close>, lines 81-105, on 1-D tensors.\<close>

definition pp_ParamProjector ::
  "(mat2 \<Rightarrow> mat2) \<Rightarrow> vec \<Rightarrow> vec \<Rightarrow> vec \<Rightarrow> string option \<Rightarrow> string option \<Rightarrow> error + pp_projector" where
  "pp_ParamProjector svd_U vec0 vec1 vec2 center scale =
     (case pp_init_checks 1 1 1 center scale of
        Some e \<Rightarrow> Inl e
      | None \<Rightarrow>
          bind_err (init_affine_basis vec0 vec1 vec2 center) (\<lambda>(affine, basis).
          bind_err (lstsq basis affine) (\<lambda>affine_inv.
          if is_ortho scale
          then bind_err (matT_vec (svd_U basis) affine) (\<lambda>affine_inv'.
               Inr \<lparr>p_center = center, p_scale = scale, p_dim = length vec0, p_affine = affine,
                    p_basis = svd_U basis, p_affine_inv = affine_inv'\<rparr>)
          else Inr \<lparr>p_center = center, p_scale = scale, p_dim = length vec0, p_affine = affine,
                    p_basis = basis, p_affine_inv = affine_inv\<rparr>)))"

subsection \<open>ParamProjector: \<^verbatim>\<open>project\<close>, \<^verbatim>\<open>map\<close> and \<^verbatim>\<open>__call__\<close>\<close>

text \<open>
  \<^verbatim>\<open>project\<close> and \<^verbatim>\<open>map\<close> are the same text in both files. \<^verbatim>\<open>math.sqrt\<close> is the real square
  root; with \<^verbatim>\<open>dim = 0\<close> the code divides a tensor by 0.0, which this model does not
  follow (the statements below need \<open>0 < p_dim p\<close> wherever it matters).
\<close>

definition project :: "'z projector_scheme \<Rightarrow> vec \<Rightarrow> bool \<Rightarrow> error + vec" where
  "project p vec is_position =
     bind_err (if is_position then vsub vec (p_affine p) else Inr vec) (\<lambda>vec.
     bind_err (if is_ortho (p_scale p) then matT_vec (p_basis p) vec
               else lstsq (p_basis p) vec) (\<lambda>coord.
     Inr (if p_scale p = Some ''rms_ortho''
          then map (\<lambda>x. x / sqrt (real (p_dim p)) * sqrt 2) coord
          else coord)))"

definition map_coord :: "'z projector_scheme \<Rightarrow> vec \<Rightarrow> bool \<Rightarrow> error + vec" where
  "map_coord p coord is_position =
     (let coord = (if p_scale p = Some ''rms_ortho''
                   then map (\<lambda>x. x / sqrt 2 * sqrt (real (p_dim p))) coord
                   else coord)
      in bind_err (mat_vec (p_basis p) coord) (\<lambda>vec.
         if is_position then vadd vec (p_affine p) else Inr vec))"

text \<open>\<^verbatim>\<open>losslandscape.ParamProjector.__call__(inp, is_position=True)\<close>, lines 84-89.\<close>

definition ll_call :: "'z projector_scheme \<Rightarrow> vec \<Rightarrow> bool \<Rightarrow> error + vec" where
  "ll_call p inp is_position =
     (if length inp = p_dim p then project p inp is_position
      else if length inp = 2 then map_coord p inp is_position
      else Inl AmbiguousInput)"

definition ll_call_default :: "'z projector_scheme \<Rightarrow> vec \<Rightarrow> error + vec" where
  "ll_call_default p inp = ll_call p inp True"

text \<open>
  \<^verbatim>\<open>paramplane.ParamProjector.__call__(inp, is_direction=False)\<close>, lines 137-142: the flag
  is passed on in the position of \<^verbatim>\<open>is_position\<close>.
\<close>

definition pp_call :: "'z projector_scheme \<Rightarrow> vec \<Rightarrow> bool \<Rightarrow> error + vec" where
  "pp_call p inp is_direction =
     (if length inp = p_dim p then project p inp is_direction
      else if length inp = 2 then map_coord p inp is_direction
      else Inl AmbiguousInput)"

definition pp_call_default :: "'z projector_scheme \<Rightarrow> vec \<Rightarrow> error + vec" where
  "pp_call_default p inp = pp_call p inp False"

subsection \<open>A model of \<^verbatim>\<open>torch.linalg.svd(B, full_matrices=False).U\<close>\<close>

text \<open>
  The library documents, for a real \<open>D \<times> 2\<close> matrix with \<open>D \<ge> 2\<close>: \<open>B = U diag(S) Vh\<close> with
  the singular values \<open>S\<close> in descending order, \<open>U\<close> of shape \<open>D \<times> 2\<close> with orthonormal
  columns and \<open>Vh\<close> orthogonal; the decomposition is unique only up to the signs of the
  singular vectors (and up to a rotation for equal or zero singular values). The function
  \<open>svd_left\<close> below computes one such \<open>U\<close> in exact arithmetic, in closed form (lemmas
  \<open>svd_left_orthonormal\<close> and \<open>svd_left_factorisation\<close> below).

  With \<open>p\<close>, \<open>q\<close>, \<open>r\<close> the entries of the Gram matrix \<open>B.T @ B\<close>, \<open>svd_axis\<close> is an
  eigenvector of it for the larger eigenvalue (the first right singular vector, not
  normalised); the second one is this vector turned by a right angle.
\<close>

definition svd_axis :: "real \<Rightarrow> real \<Rightarrow> real \<Rightarrow> real \<times> real" where
  "svd_axis p q r =
     (let delta = sqrt ((p - r) * (p - r) + 4 * q * q)
      in if delta = 0 then (1, 0)
         else if r \<le> p then (p - r + delta, 2 * q)
         else (2 * q, r - p + delta))"

text \<open>A vector divided by its Euclidean norm.\<close>

definition normalize :: "vec \<Rightarrow> vec" where
  "normalize v = map (\<lambda>x. x / sqrt (dot v v)) v"

text \<open>The \<open>i\<close>-th unit vector of dimension \<open>D\<close>.\<close>

definition unit_vec :: "nat \<Rightarrow> nat \<Rightarrow> vec" where
  "unit_vec D i = map (\<lambda>j. if j = i then 1 else 0) [0..<D]"

text \<open>
  A unit vector orthogonal to the unit vector \<open>u\<close>: a unit vector \<open>e\<close> that is not a
  multiple of \<open>u\<close>, minus its component along \<open>u\<close>, normalised. It is the left singular
  vector for a singular value 0, which the decomposition leaves free.
\<close>

definition complete_unit :: "vec \<Rightarrow> vec" where
  "complete_unit u =
     (let e = (if u ! 0 * u ! 0 = 1 then unit_vec (length u) 1 else unit_vec (length u) 0)
      in normalize (map2 (\<lambda>x y. x - dot u e * y) e u))"

text \<open>
  The columns of \<open>U\<close>: the images of the two right singular vectors, normalised, when both
  singular values are positive; the first of them and a unit vector orthogonal to it when
  the matrix has rank one; two unit vectors for the zero matrix.
\<close>

definition svd_left :: "mat2 \<Rightarrow> mat2" where
  "svd_left B =
     (let p = dot (fst B) (fst B); q = dot (fst B) (snd B); r = dot (snd B) (snd B);
          w = svd_axis p q r;
          c1 = map2 (\<lambda>x y. x * fst w + y * snd w) (fst B) (snd B);
          c2 = map2 (\<lambda>x y. x * (- snd w) + y * fst w) (fst B) (snd B)
      in if p * r - q * q \<noteq> 0 then (normalize c1, normalize c2)
         else if dot c1 c1 \<noteq> 0 then (normalize c1, complete_unit (normalize c1))
         else (unit_vec (length (fst B)) 0, unit_vec (length (fst B)) 1))"

subsection \<open>Notions used to state the properties\<close>

text \<open>The values stored under the key \<open>k\<close> in a sequence of records, in order.\<close>

definition values_for :: "'k \<Rightarrow> ('k, 'v) result_record list \<Rightarrow> 'v list" where
  "values_for k recs = concat (map (\<lambda>res. map snd (filter (\<lambda>kv. fst kv = k) res)) recs)"

text \<open>The chunk sizes \<^verbatim>\<open>tensor_split\<close> assigns to the split indices \<open>idxs\<close>.\<close>

definition split_sizes :: "nat \<Rightarrow> nat \<Rightarrow> nat list \<Rightarrow> nat list" where
  "split_sizes min_split_size num_splits_one_extra idxs =
     map (\<lambda>i. if i < num_splits_one_extra then min_split_size + 1 else min_split_size) idxs"

text \<open>
  The root mean square of a vector, \<^verbatim>\<open>v.square().mean().sqrt()\<close> as in
  \<^verbatim>\<open>ParamProjector.error\<close>.
\<close>

definition rms :: "vec \<Rightarrow> real" where
  "rms v = sqrt (sum_list (map (\<lambda>x. x * x) v) / real (length v))"

text \<open>\<open>B.T @ B = I(2)\<close> for a matrix given by its two columns of equal length.\<close>

definition orthonormal :: "mat2 \<Rightarrow> bool" where
  "orthonormal B =
     (length (fst B) = length (snd B) \<and> dot (fst B) (fst B) = 1 \<and> dot (snd B) (snd B) = 1
      \<and> dot (fst B) (snd B) = 0)"

text \<open>
  The determinant of the Gram matrix \<open>B.T @ B\<close>. It is zero exactly when the columns are
  linearly dependent (lemma \<open>gram_det_zero_iff\<close> below).
\<close>

definition gram_det :: "mat2 \<Rightarrow> real" where
  "gram_det B = dot (fst B) (fst B) * dot (snd B) (snd B) - dot (fst B) (snd B) * dot (fst B) (snd B)"

text \<open>
  Three points are not collinear when the differences \<open>vec1 - vec0\<close> and \<open>vec2 - vec0\<close> are
  linearly independent.
\<close>

definition noncollinear :: "vec \<Rightarrow> vec \<Rightarrow> vec \<Rightarrow> bool" where
  "noncollinear vec0 vec1 vec2 =
     (gram_det (map2 (-) vec1 vec0, map2 (-) vec2 vec0) \<noteq> 0)"

section \<open>Properties of the grid builder\<close>

lemma length_grid_coords: "length (grid_coords X Y) = length X * length Y"
  by (induction X) (simp_all add: grid_coords_def meshgrid_ij_def)

lemma slice_append: "a \<le> b \<Longrightarrow> b \<le> c \<Longrightarrow> slice xs a b @ slice xs b c = slice xs a c"
proof -
  assume ab: "a \<le> b" and bc: "b \<le> c"
  have "take (c - a) (drop a xs) = take ((b - a) + (c - b)) (drop a xs)"
    using ab bc by simp
  also have "\<dots> = take (b - a) (drop a xs) @ take (c - b) (drop (b - a) (drop a xs))"
    by (rule take_add)
  also have "drop (b - a) (drop a xs) = drop b xs"
    using ab by simp
  finally show ?thesis by (simp add: slice_def)
qed


lemma concat_tensor_split_loop:
  "concat (tensor_split_loop xs m e start idxs) = slice xs start (start + sum_list (split_sizes m e idxs))"
proof (induction idxs arbitrary: start)
  case Nil
  then show ?case by (simp add: split_sizes_def slice_def)
next
  case (Cons i idxs)
  let ?sz = "if i < e then m + 1 else m"
  have "concat (tensor_split_loop xs m e start (i # idxs))
      = slice xs start (start + ?sz) @ slice xs (start + ?sz) (start + ?sz + sum_list (split_sizes m e idxs))"
    using Cons.IH[of "start + ?sz"] by (simp add: Let_def)
  also have "\<dots> = slice xs start (start + ?sz + sum_list (split_sizes m e idxs))"
    by (rule slice_append) simp_all
  finally show ?case by (simp add: split_sizes_def add.assoc)
qed

lemma length_tensor_split_loop: "length (tensor_split_loop xs m e start idxs) = length idxs"
  by (induction idxs arbitrary: start) (simp_all add: Let_def)

lemma sum_split_sizes_upt: "e \<le> n \<Longrightarrow> sum_list (split_sizes m e [0..<n]) = n * m + e"
proof (induction n arbitrary: e)
  case 0
  then show ?case by (simp add: split_sizes_def)
next
  case (Suc n)
  show ?case
  proof (cases "e = Suc n")
    case True
    have "sum_list (split_sizes m e [0..<n]) = sum_list (map (\<lambda>i. m + 1) [0..<n])"
      unfolding split_sizes_def using True by (intro arg_cong[where f=sum_list] map_cong) auto
    then show ?thesis using True by (simp add: split_sizes_def sum_list_triv)
  next
    case False
    with Suc.prems have "e \<le> n" by simp
    from Suc.IH[OF this] show ?thesis using \<open>e \<le> n\<close> by (simp add: split_sizes_def)
  qed
qed

lemma tensor_split_concat:
  assumes "tensor_split xs n = Inr cs"
  shows "concat cs = xs" and "length cs = nat n"
proof -
  from assms have n: "0 < n" and cs: "cs = tensor_split_loop xs (length xs div nat n) (length xs mod nat n) 0 [0..<nat n]"
    by (auto simp: tensor_split_def split: if_splits)
  have "length xs mod nat n \<le> nat n" using n by (simp add: less_imp_le)
  then have "sum_list (split_sizes (length xs div nat n) (length xs mod nat n) [0..<nat n]) = length xs"
    by (simp add: sum_split_sizes_upt)
  then show "concat cs = xs" by (simp add: cs concat_tensor_split_loop slice_def)
  show "length cs = nat n" by (simp add: cs length_tensor_split_loop)
qed


lemma length_slice: "b \<le> length xs \<Longrightarrow> length (slice xs a b) = b - a"
  by (simp add: slice_def)

lemma map_length_tensor_split_loop:
  "start + sum_list (split_sizes m e idxs) \<le> length xs \<Longrightarrow>
   map length (tensor_split_loop xs m e start idxs) = split_sizes m e idxs"
proof (induction idxs arbitrary: start)
  case Nil
  then show ?case by (simp add: split_sizes_def)
next
  case (Cons i idxs)
  let ?sz = "if i < e then m + 1 else m"
  from Cons.prems have b: "start + ?sz + sum_list (split_sizes m e idxs) \<le> length xs"
    by (simp add: split_sizes_def)
  then have "start + ?sz \<le> length xs" by simp
  then have "length (slice xs start (start + ?sz)) = ?sz"
    by (simp add: length_slice)
  with Cons.IH[OF b] show ?case by (simp add: Let_def split_sizes_def)
qed

lemma tensor_split_sizes:
  assumes "tensor_split xs n = Inr cs"
  shows "map length cs = split_sizes (length xs div nat n) (length xs mod nat n) [0..<nat n]"
proof -
  from assms have n: "0 < n" and cs: "cs = tensor_split_loop xs (length xs div nat n) (length xs mod nat n) 0 [0..<nat n]"
    by (auto simp: tensor_split_def split: if_splits)
  have "length xs mod nat n \<le> nat n" using n by (simp add: less_imp_le)
  then have "sum_list (split_sizes (length xs div nat n) (length xs mod nat n) [0..<nat n]) = length xs"
    by (simp add: sum_split_sizes_upt)
  then show ?thesis by (simp add: cs map_length_tensor_split_loop)
qed

lemma tensor_split_size_cases:
  assumes "tensor_split xs n = Inr cs" "c \<in> set cs"
  shows "length c = length xs div nat n \<or> length c = length xs div nat n + 1"
proof -
  from assms(2) have "length c \<in> set (map length cs)" by simp
  then show ?thesis
    unfolding tensor_split_sizes[OF assms(1)] split_sizes_def by auto
qed

lemma concat_filter_nonempty: "concat (filter (\<lambda>c. c \<noteq> []) cs) = concat cs"
  by (induction cs) simp_all

lemma ll_chunks_props:
  assumes "ll_chunks X Y num_jobs = Inr chunks"
  shows "concat chunks = grid_coords X Y"
    and "\<forall>c \<in> set chunks. c \<noteq> []"
    and "sum_list (map length chunks) = length X * length Y"
    and "\<forall>c \<in> set chunks. \<forall>c' \<in> set chunks. length c \<le> length c' + 1"
    and "length chunks \<le> nat num_jobs"
proof -
  from assms obtain cs where cs: "tensor_split (grid_coords X Y) num_jobs = Inr cs"
    and chunks: "chunks = filter (\<lambda>c. c \<noteq> []) cs"
    by (auto simp: ll_chunks_def split: sum.splits list.splits)
  show c: "concat chunks = grid_coords X Y"
    using tensor_split_concat(1)[OF cs] by (simp add: chunks concat_filter_nonempty)
  show "\<forall>c \<in> set chunks. c \<noteq> []" by (simp add: chunks)
  have "sum_list (map length chunks) = length (concat chunks)" by (simp add: length_concat)
  then show "sum_list (map length chunks) = length X * length Y"
    by (simp add: c length_grid_coords)
  show "\<forall>c \<in> set chunks. \<forall>c' \<in> set chunks. length c \<le> length c' + 1"
  proof (intro ballI)
    fix c c' assume "c \<in> set chunks" "c' \<in> set chunks"
    then have "c \<in> set cs" "c' \<in> set cs" by (simp_all add: chunks)
    from tensor_split_size_cases[OF cs this(1)] tensor_split_size_cases[OF cs this(2)]
    show "length c \<le> length c' + 1" by auto
  qed
  have "length chunks \<le> length cs" by (simp add: chunks)
  then show "length chunks \<le> nat num_jobs" using tensor_split_concat(2)[OF cs] by simp
qed

lemma ll_chunks_total:
  assumes "0 < num_jobs" "X \<noteq> []" "Y \<noteq> []"
  shows "\<exists>chunks. ll_chunks X Y num_jobs = Inr chunks"
proof -
  obtain cs where cs: "tensor_split (grid_coords X Y) num_jobs = Inr cs"
    using assms(1) by (simp add: tensor_split_def)
  have "grid_coords X Y \<noteq> []"
    using assms(2,3) length_grid_coords[of X Y] by (metis length_0_conv mult_is_0)
  then have "concat cs \<noteq> []" using tensor_split_concat(1)[OF cs] by simp
  then have "filter (\<lambda>c. c \<noteq> []) cs \<noteq> []"
    using concat_filter_nonempty[of cs] by auto
  then show ?thesis by (auto simp: ll_chunks_def cs split: list.splits)
qed

lemma grid_coords_nth:
  assumes "i < length X" "j < length Y"
  shows "grid_coords X Y ! (i * length Y + j) = (X ! i, Y ! j)"
  using assms
proof (induction X arbitrary: i)
  case Nil
  then show ?case by simp
next
  case (Cons x X)
  have gc: "grid_coords (x # X) Y = map (\<lambda>y. (x, y)) Y @ grid_coords X Y"
    by (simp add: grid_coords_def meshgrid_ij_def)
  show ?case
  proof (cases i)
    case 0
    then show ?thesis using Cons.prems by (simp add: gc nth_append)
  next
    case (Suc i')
    then have "i' < length X" using Cons.prems by simp
    from Cons.IH[OF this Cons.prems(2)] show ?thesis
      using Suc by (simp add: gc nth_append)
  qed
qed

section \<open>Properties of the grid reducer\<close>

lemma foldl_ll_put:
  "foldl ll_put out res k =
     (if values_for k [res] = [] then out k
      else Some ((case out k of None \<Rightarrow> [] | Some ws \<Rightarrow> ws) @ values_for k [res]))"
proof (induction res arbitrary: out)
  case Nil
  then show ?case by (simp add: values_for_def)
next
  case (Cons kv res)
  show ?case
    unfolding foldl_Cons Cons.IH
    by (auto simp: values_for_def ll_put_def split: option.splits)
qed

lemma values_for_append: "values_for k (xs @ ys) = values_for k xs @ values_for k ys"
  by (simp add: values_for_def)

lemma values_for_Cons: "values_for k (r # rs) = values_for k [r] @ values_for k rs"
  by (simp add: values_for_def)

lemma foldl_job_ll_put:
  "foldl (\<lambda>out res. foldl ll_put out res) out job k =
     (if values_for k job = [] then out k
      else Some ((case out k of None \<Rightarrow> [] | Some ws \<Rightarrow> ws) @ values_for k job))"
proof (induction job arbitrary: out)
  case Nil
  then show ?case by (simp add: values_for_def)
next
  case (Cons r job)
  have "foldl (\<lambda>out res. foldl ll_put out res) out (r # job) k
      = foldl (\<lambda>out res. foldl ll_put out res) (foldl ll_put out r) job k"
    by simp
  also have "\<dots> = (if values_for k job = [] then foldl ll_put out r k
      else Some ((case foldl ll_put out r k of None \<Rightarrow> [] | Some ws \<Rightarrow> ws) @ values_for k job))"
    by (rule Cons.IH)
  finally show ?case
    by (simp add: foldl_ll_put[of out r k] values_for_Cons[of k r job] split: option.splits)
qed

lemma foldl_jobs_ll_put:
  "foldl (\<lambda>out job. foldl (\<lambda>out res. foldl ll_put out res) out job) out results k =
     (if values_for k (concat results) = [] then out k
      else Some ((case out k of None \<Rightarrow> [] | Some ws \<Rightarrow> ws) @ values_for k (concat results)))"
proof (induction results arbitrary: out)
  case Nil
  then show ?case by (simp add: values_for_def)
next
  case (Cons job results)
  let ?f = "\<lambda>out job. foldl (\<lambda>out res. foldl ll_put out res) out job"
  have "foldl ?f out (job # results) k = foldl ?f (?f out job) results k"
    by simp
  also have "\<dots> = (if values_for k (concat results) = [] then ?f out job k
      else Some ((case ?f out job k of None \<Rightarrow> [] | Some ws \<Rightarrow> ws) @ values_for k (concat results)))"
    by (rule Cons.IH)
  finally show ?case
    by (simp add: foldl_job_ll_put[of out job k] values_for_append split: option.splits)
qed

lemma ll_gather_values:
  "ll_gather results k =
     (if values_for k (concat results) = [] then None else Some (values_for k (concat results)))"
  by (simp add: ll_gather_def foldl_jobs_ll_put)

lemma values_for_map_single:
  "(\<And>c. values_for k [ev c] = [tag c]) \<Longrightarrow> values_for k (map ev cs) = map tag cs"
proof (induction cs)
  case Nil
  then show ?case by (simp add: values_for_def)
next
  case (Cons c cs)
  then show ?case using values_for_Cons[of k "ev c" "map ev cs"] by simp
qed

lemma reshape_xy_cell:
  assumes "length flat = lx * ly" "i < lx" "j < ly"
  shows "\<exists>g. reshape_xy lx ly flat = Inr g \<and> g ! i ! j = [flat ! (i * ly + j)]"
proof -
  have pos: "lx * ly \<noteq> 0" using assms(2,3) by auto
  have "i * ly + j < lx * ly"
  proof -
    have "i * ly + j < i * ly + ly" using assms(3) by simp
    also have "\<dots> = (i + 1) * ly" by simp
    also have "\<dots> \<le> lx * ly" using assms(2) by (intro mult_le_mono1) simp
    finally show ?thesis .
  qed
  then have lt: "i * ly + j < length flat" by (simp add: assms(1))
  have "slice flat (i * ly + j) (i * ly + j + 1) = [flat ! (i * ly + j)]"
    using lt by (simp add: slice_def take_Suc_conv_app_nth)
  then show ?thesis
    using pos assms by (simp add: reshape_xy_def Let_def)
qed

text \<open>
  The reducer of \<^verbatim>\<open>losslandscape.py\<close> inverts the flattening of the grid builder: when every
  record carries the key \<open>k\<close> once, the values gathered under \<open>k\<close> are those of the
  coordinates in row-major order, and cell \<open>[i, j]\<close> of the reshaped tensor is the value
  of the coordinate \<open>(X[i], Y[j])\<close>. Here \<open>ev\<close> is the evaluation of one coordinate, so
  that \<open>map (map ev) chunks\<close> is what the jobs return.
\<close>

lemma ll_reduce_inverts_flattening:
  assumes chunks: "ll_chunks X Y num_jobs = Inr chunks"
    and key: "\<And>c. values_for k [ev c] = [tag c]"
    and i: "i < length X" and j: "j < length Y"
  shows "\<exists>flat g. ll_gather (map (map ev) chunks) k = Some flat
           \<and> flat = map tag (grid_coords X Y)
           \<and> length flat = length X * length Y
           \<and> reshape_xy (length X) (length Y) flat = Inr g
           \<and> g ! i ! j = [tag (X ! i, Y ! j)]"
proof -
  let ?flat = "map tag (grid_coords X Y)"
  have cc: "concat (map (map ev) chunks) = map ev (grid_coords X Y)"
    using ll_chunks_props(1)[OF chunks] by (simp add: map_concat[symmetric])
  have v: "values_for k (map ev (grid_coords X Y)) = ?flat"
    by (rule values_for_map_single) (rule key)
  have len: "length ?flat = length X * length Y" by (simp add: length_grid_coords)
  have ne: "?flat \<noteq> []" using i j len by (metis length_0_conv mult_is_0 not_less_zero)
  have g: "ll_gather (map (map ev) chunks) k = Some ?flat"
    using ne by (simp add: ll_gather_values cc v)
  have lt: "i * length Y + j < length (grid_coords X Y)"
  proof -
    have "i * length Y + j < (i + 1) * length Y" using j by simp
    also have "\<dots> \<le> length X * length Y" using i by (intro mult_le_mono1) simp
    finally show ?thesis by (simp add: length_grid_coords)
  qed
  from reshape_xy_cell[OF len i j] obtain gr where
    gr: "reshape_xy (length X) (length Y) ?flat = Inr gr"
    and cell: "gr ! i ! j = [?flat ! (i * length Y + j)]" by blast
  have "?flat ! (i * length Y + j) = tag (X ! i, Y ! j)"
    using lt by (simp add: grid_coords_nth[OF i j])
  with g len gr cell show ?thesis by auto
qed

text \<open>
  Claim C1 (the reducer puts the \<open>sub_idx\<close>-th record of the \<open>idx\<close>-th chunk at the sum of
  the sizes of the preceding chunks plus \<open>sub_idx\<close>, so that the flat sequence is in the
  order of the grid builder). \<^verbatim>\<open>losslandscape.py\<close> does so (lemma
  \<open>ll_reduce_inverts_flattening\<close>); \<^verbatim>\<open>paramplane.py\<close> writes at \<^verbatim>\<open>idx+sub_idx\<close> instead. On
  a 2 by 2 grid split into two jobs, whose records carry the values 10, 11, 12, 13 in
  coordinate order, the second job overwrites row 1 and the last row keeps its zero.
\<close>

theorem C1_paramplane_reducer_misplaces_records:
  "pp_chunks [0::real, 1] [0::real, 1] 2 = Inr [[(0, 0), (0, 1)], [(1, 0), (1, 1)]] \<and>
   (case pp_gather 4 [[[(''m'', 10::int)], [(''m'', 11)]], [[(''m'', 12)], [(''m'', 13)]]] of
      Inl e \<Rightarrow> None | Inr out \<Rightarrow> out ''m'') = Some [10, 12, 13, 0]"
proof
  show "pp_chunks [0::real, 1] [0::real, 1] 2 = Inr [[(0, 0), (0, 1)], [(1, 0), (1, 1)]]"
    by (simp add: pp_chunks_def tensor_split_def grid_coords_def meshgrid_ij_def slice_def upt_rec)
  show "(case pp_gather 4 [[[(''m'', 10::int)], [(''m'', 11)]], [[(''m'', 12)], [(''m'', 13)]]] of
      Inl e \<Rightarrow> None | Inr out \<Rightarrow> out ''m'') = Some [10, 12, 13, 0]"
    by (simp add: pp_gather_def pp_put_def upt_rec numeral_eq_Suc)
qed

text \<open>
  Claim C4 (the grid builder splits the coordinates into contiguous chunks of nearly equal
  size, drops the empty ones and hands no empty chunk to a job). \<^verbatim>\<open>losslandscape.py\<close>
  does so (lemmas \<open>ll_chunks_props\<close> and \<open>ll_chunks_total\<close>); \<^verbatim>\<open>paramplane.py\<close> has no
  filter: with two coordinates and \<^verbatim>\<open>num_jobs = 3\<close> the third chunk it submits is empty.
\<close>

theorem C4_paramplane_keeps_empty_chunk:
  "pp_chunks [0::real] [0::real, 1] 3 = Inr [[(0, 0)], [(0, 1)], []]"
  by (simp add: pp_chunks_def tensor_split_def grid_coords_def meshgrid_ij_def slice_def upt_rec)

section \<open>Shapes of the saved tensors\<close>

lemma ll_saved_shape_regular:
  assumes "2 \<le> lx" "2 \<le> ly"
  shows "ll_saved_shape lx ly (lx * ly) s =
           Inr ([lx, ly] @ (if prod_list s = 1 then [] else [prod_list s]))"
proof -
  have pos: "lx * ly \<noteq> 0" using assms by auto
  then show ?thesis
    using assms by (simp add: ll_saved_shape_def reshape_xy_shape_def shape_numel_def squeeze_def)
qed

lemma pp_saved_shape_regular:
  assumes "0 < lx" "0 < ly"
  shows "pp_saved_shape lx ly s = Inr [lx, ly, prod_list s]"
  using assms by (simp add: pp_saved_shape_def reshape_xy_shape_def shape_numel_def)

text \<open>
  Claim C8 (every saved tensor has shape \<open>(len(X), len(Y), ...)\<close> with only trailing axes
  of length one dropped: the first two axes stay also when one of them has length one,
  and a scalar metric gives exactly \<open>(len(X), len(Y))\<close>). In \<^verbatim>\<open>losslandscape.py\<close> the
  \<^verbatim>\<open>squeeze()\<close> removes every axis of length one: a scalar metric on a grid with
  \<open>len(X) = 1\<close> and \<open>len(Y) = 2\<close> is saved with shape \<open>(2)\<close>. \<^verbatim>\<open>paramplane.py\<close> does not
  squeeze: a scalar metric on a 2 by 2 grid is saved with shape \<open>(2, 2, 1)\<close>.
\<close>

theorem C8_saved_shapes_at_failing_inputs:
  "ll_saved_shape 1 2 2 [] = Inr [2] \<and> pp_saved_shape 2 2 [] = Inr [2, 2, 1]"
  by (simp add: ll_saved_shape_def pp_saved_shape_def reshape_xy_shape_def shape_numel_def squeeze_def)

section \<open>Progress tracking\<close>

text \<open>A failing step of \<^verbatim>\<open>parse_tqdm_state\<close> gives 0.\<close>

lemma parse_tqdm_state_failures:
  "parse_tqdm_state findall None = 0"
  "parse_tqdm_state findall (Some []) = 0"
  "findall l = [] \<Longrightarrow> parse_tqdm_state findall (Some (ls @ [l])) = 0"
  by (simp_all add: parse_tqdm_state_def)

text \<open>
  Inside the loop the count never decreases: every value but the last of the sequence is
  at least its predecessor (and at least the initial count).
\<close>

lemma track_progress_loop_monotone:
  assumes "track_progress findall n polls = Some tr"
  shows "tr \<noteq> [] \<and> sorted (butlast tr) \<and> (\<forall>v \<in> set (butlast tr). n \<le> v)"
  using assms
proof (induction polls arbitrary: n tr)
  case Nil
  then show ?case by simp
next
  case (Cons jobs later)
  show ?case
  proof (cases "list_ex (\<lambda>job. \<not> job_done job) jobs")
    case False
    with Cons.prems show ?thesis by auto
  next
    case True
    let ?n' = "max n (parsed_total findall jobs)"
    from True Cons.prems obtain tr' where
      tr': "track_progress findall ?n' later = Some tr'" and tr: "tr = ?n' # tr'"
      by (auto simp: Let_def)
    from Cons.IH[OF tr'] have ih: "tr' \<noteq> []" "sorted (butlast tr')" "\<forall>v \<in> set (butlast tr'). ?n' \<le> v"
      by simp_all
    show ?thesis using ih by (auto simp: tr)
  qed
qed

text \<open>
  Claim C9 (the reported progress count never decreases over the whole run, the update
  after the loop included, and a parse failure counts as zero). The update after the
  loop assigns the parsed sum without the \<^verbatim>\<open>max\<close> of the loop body. With one job whose
  log ends in a progress line at the first poll (parsed as 3) and in another line when the
  job is done (no match, parsed as 0), the count goes from 3 to 0.
\<close>

theorem C9_final_update_can_decrease:
  "track_progress (\<lambda>line. if line = '' 30%|###       | 3/10 [00:03<00:07, unique postfix]'' then [3] else []) 0
     [[\<lparr>job_done = False, job_stderr = Some ['' 30%|###       | 3/10 [00:03<00:07, unique postfix]'']\<rparr>],
      [\<lparr>job_done = True, job_stderr = Some ['' 30%|###       | 3/10 [00:03<00:07, unique postfix]'',
                                             ''submitit INFO - Job completed successfully'']\<rparr>]]
   = Some [3, 0]"
  by (simp add: parsed_total_def parse_tqdm_state_def)

section \<open>Constructor checks\<close>

lemma ll_init_checks_shape:
  "ll_init_checks d0 d1 d2 center scale = Some InvalidShape \<longleftrightarrow> 1 < d0 \<or> 1 < d1 \<or> 1 < d2"
  by (simp add: ll_init_checks_def)

lemma pp_init_checks_never_shape:
  "pp_init_checks d0 d1 d2 center scale \<noteq> Some InvalidShape"
  by (simp add: pp_init_checks_def)

text \<open>
  Claim C7 (the constructor of both drivers raises the shape error exactly when one of the
  three vectors has more than one dimension). \<^verbatim>\<open>losslandscape.py\<close> does so (lemma
  \<open>ll_init_checks_shape\<close>); \<^verbatim>\<open>paramplane.py\<close> checks only the two options (lemma
  \<open>pp_init_checks_never_shape\<close>): for three 2-D tensors it raises nothing here.
\<close>

theorem C7_paramplane_has_no_shape_check:
  "pp_init_checks 2 2 2 None None = None \<and> ll_init_checks 2 2 2 None None = Some InvalidShape"
  by (simp add: pp_init_checks_def ll_init_checks_def)

section \<open>Loss accumulation\<close>

lemma update_losses_CE_KL_step:
  "loss_CE (update_losses L s t l) = loss_CE l + tsum L (cross_entropy L (log_softmax L s) (softmax L t))"
  "loss_KL (update_losses L s t l) = loss_KL l + tsum L (cross_entropy L (log_softmax L s) (softmax L t))"
  by (simp_all add: update_losses_def Let_def)

lemma update_losses_KL_CE:
  "loss_KL l = loss_CE l \<Longrightarrow> loss_KL (update_losses L s t l) = loss_CE (update_losses L s t l)"
  by (simp add: update_losses_CE_KL_step)

lemma run_batches_KL_CE:
  "loss_KL (fst acc) = loss_CE (fst acc) \<Longrightarrow>
   loss_KL (fst (run_batches L student teacher dl acc)) = loss_CE (fst (run_batches L student teacher dl acc))"
proof (induction dl arbitrary: acc)
  case Nil
  then show ?case by (cases acc) simp
next
  case (Cons b dl)
  then show ?case by (cases acc) (simp add: Let_def update_losses_KL_CE)
qed

lemma store_probe_other:
  "\<forall>key. prefix @ key \<noteq> k \<Longrightarrow> store_probe prefix probe out k = out k"
  unfolding store_probe_def
  by (induction probe arbitrary: out) (auto simp: fun_upd_def)

lemma store_averages_KL_CE:
  assumes "store_averages L prefix dl acc out = Inr out'" "loss_KL (fst acc) = loss_CE (fst acc)"
  shows "out' (prefix @ ''KL'') = Some (tdiv L (loss_CE (fst acc)) (snd acc))"
    and "out' (prefix @ ''CE'') = Some (tdiv L (loss_CE (fst acc)) (snd acc))"
  using assms by (auto simp: store_averages_def losses_items_def split: if_splits)

lemma store_averages_other:
  assumes "store_averages L prefix dl acc out = Inr out'" "\<forall>key. prefix @ key \<noteq> k"
  shows "out' k = out k"
  using assms by (auto simp: store_averages_def losses_items_def split: if_splits)

lemma store_averages_total:
  "dl \<noteq> [] \<Longrightarrow> \<exists>out'. store_averages L prefix dl acc out = Inr out'"
  by (simp add: store_averages_def)

lemma eval_student_KL_CE:
  assumes "eval_student L student teacher probe probe_norm train_dl valid_dl = Inr out"
  shows "out ''train/KL'' = out ''train/CE'' \<and> out ''valid/KL'' = out ''valid/CE''
       \<and> out ''train/KL'' \<noteq> None \<and> out ''valid/KL'' \<noteq> None"
proof -
  let ?tr = "run_batches L student teacher train_dl (losses_init, 0)"
  let ?va = "run_batches L student teacher valid_dl (losses_init, 0)"
  from assms obtain out1 out2 where
    o1: "store_averages L ''train/'' train_dl ?tr Map.empty = Inr out1" and
    o2: "store_averages L ''valid/'' valid_dl ?va out1 = Inr out2" and
    o: "out = store_probe ''probe/norm/'' probe_norm (store_probe ''probe/'' probe out2)"
    by (auto simp: eval_student_def split: sum.splits)
  have tr: "loss_KL (fst ?tr) = loss_CE (fst ?tr)"
    by (rule run_batches_KL_CE) (simp add: losses_init_def)
  have va: "loss_KL (fst ?va) = loss_CE (fst ?va)"
    by (rule run_batches_KL_CE) (simp add: losses_init_def)
  have p: "out k = out2 k" if "\<forall>key. ''probe/norm/'' @ key \<noteq> k" "\<forall>key. ''probe/'' @ key \<noteq> k" for k
    using that by (simp add: o store_probe_other)
  have t1: "out1 ''train/KL'' = Some (tdiv L (loss_CE (fst ?tr)) (snd ?tr))"
    and t2: "out1 ''train/CE'' = Some (tdiv L (loss_CE (fst ?tr)) (snd ?tr))"
    using store_averages_KL_CE[OF o1 tr] by simp_all
  have v1: "out2 ''valid/KL'' = Some (tdiv L (loss_CE (fst ?va)) (snd ?va))"
    and v2: "out2 ''valid/CE'' = Some (tdiv L (loss_CE (fst ?va)) (snd ?va))"
    using store_averages_KL_CE[OF o2 va] by simp_all
  have k1: "out2 ''train/KL'' = out1 ''train/KL''" and k2: "out2 ''train/CE'' = out1 ''train/CE''"
    using store_averages_other[OF o2] by simp_all
  show ?thesis
    using t1 t2 v1 v2 k1 k2 by (simp add: p)
qed

lemma eval_student_total:
  assumes "train_dl \<noteq> []" "valid_dl \<noteq> []"
  shows "\<exists>out. eval_student L student teacher probe probe_norm train_dl valid_dl = Inr out"
  using assms by (simp add: eval_student_def store_averages_def)

text \<open>
  Claim C10 (in \<^verbatim>\<open>losslandscape.py\<close> the accumulated KL metric is the accumulated
  cross-entropy metric). \<^verbatim>\<open>update_losses\<close> adds the same value to \<^verbatim>\<open>losses['CE']\<close> and to
  \<^verbatim>\<open>losses['KL']\<close>; with data loaders that are not empty \<^verbatim>\<open>eval_student\<close> returns, and in
  the record of every coordinate \<^verbatim>\<open>train/KL\<close> equals \<^verbatim>\<open>train/CE\<close> and \<^verbatim>\<open>valid/KL\<close> equals
  \<^verbatim>\<open>valid/CE\<close>, all four present. The statement holds for any loss functions and any
  arithmetic on the accumulated values.
\<close>

theorem C10_KL_equals_CE:
  assumes "train_dl \<noteq> []" and "valid_dl \<noteq> []"
  shows "loss_CE (update_losses L s t l) = loss_CE l + tsum L (cross_entropy L (log_softmax L s) (softmax L t))
       \<and> loss_KL (update_losses L s t l) = loss_KL l + tsum L (cross_entropy L (log_softmax L s) (softmax L t))
       \<and> (\<exists>out. eval_student L student teacher probe probe_norm train_dl valid_dl = Inr out
            \<and> (let r = ll_result_record out coord l2norm
               in r ''train/KL'' = r ''train/CE'' \<and> r ''valid/KL'' = r ''valid/CE''
                  \<and> r ''train/KL'' \<noteq> None \<and> r ''valid/KL'' \<noteq> None))"
proof -
  from eval_student_total[OF assms] obtain out where
    out: "eval_student L student teacher probe probe_norm train_dl valid_dl = Inr out" by blast
  from eval_student_KL_CE[OF out] have
    a: "out ''train/KL'' = out ''train/CE''" and b: "out ''valid/KL'' = out ''valid/CE''"
    and c: "out ''train/KL'' \<noteq> None" and d: "out ''valid/KL'' \<noteq> None"
    by blast+
  have "let r = ll_result_record out coord l2norm
     in r ''train/KL'' = r ''train/CE'' \<and> r ''valid/KL'' = r ''valid/CE''
        \<and> r ''train/KL'' \<noteq> None \<and> r ''valid/KL'' \<noteq> None"
    unfolding Let_def ll_result_record_def using a b c d by simp
  with out have "\<exists>out. eval_student L student teacher probe probe_norm train_dl valid_dl = Inr out
            \<and> (let r = ll_result_record out coord l2norm
               in r ''train/KL'' = r ''train/CE'' \<and> r ''valid/KL'' = r ''valid/CE''
                  \<and> r ''train/KL'' \<noteq> None \<and> r ''valid/KL'' \<noteq> None)"
    by blast
  then show ?thesis
    using update_losses_CE_KL_step[of L s t l] by blast
qed

text \<open>A check of C10 on one training batch and one validation batch.\<close>

theorem C10_KL_equals_CE_witness:
  "[(1::real, 4::nat)] \<noteq> [] \<and> [(3::real, 2::nat)] \<noteq> []
   \<and> (\<exists>out. eval_student
          \<lparr>mean_squared_error = (\<lambda>p t. (p - t) * (p - t)), cross_entropy = (\<lambda>lp t. - (t * lp)),
           entropy = (\<lambda>p lp. - (p * lp)), log_softmax = (\<lambda>x. x), softmax = (\<lambda>x. x),
           texp = (\<lambda>x. x), tsum = (\<lambda>x::real. x), tdiv = (\<lambda>v n. v / real n)\<rparr>
          (\<lambda>x. x) (\<lambda>x. 2 * x) [] [] [(1::real, 4::nat)] [(3::real, 2::nat)] = Inr out
        \<and> (let r = ll_result_record out 0 1
           in r ''train/KL'' = r ''train/CE'' \<and> r ''valid/KL'' = r ''valid/CE''
              \<and> r ''train/KL'' \<noteq> None \<and> r ''valid/KL'' \<noteq> None))"
proof -
  have h1: "[(1::real, 4::nat)] \<noteq> []" and h2: "[(3::real, 2::nat)] \<noteq> []" by simp_all
  note inst = C10_KL_equals_CE[OF h1 h2, where L = "\<lparr>mean_squared_error = (\<lambda>p t. (p - t) * (p - t)),
           cross_entropy = (\<lambda>lp t. - (t * lp)),
           entropy = (\<lambda>p lp. - (p * lp)), log_softmax = (\<lambda>x. x), softmax = (\<lambda>x. x),
           texp = (\<lambda>x. x), tsum = (\<lambda>x::real. x), tdiv = (\<lambda>v n. v / real n)\<rparr>"
      and student = "\<lambda>x. x" and teacher = "\<lambda>x. 2 * x" and probe = "[]" and probe_norm = "[]"
      and coord = 0 and ?l2norm = 1 and s = 0 and t = 0 and l = losses_init]
  show ?thesis
    by (intro conjI h1 h2 conjunct2[OF conjunct2[OF inst]])
qed

section \<open>ParamProjector: linear algebra on columns\<close>

lemma bind_err_simps [simp]: "bind_err (Inr x) f = f x" "bind_err (Inl e) f = Inl e"
  by (simp_all add: bind_err_def)

lemma dot_Nil [simp]: "dot [] b = 0" "dot a [] = 0"
  by (simp_all add: dot_def)

lemma dot_Cons [simp]: "dot (x # a) (y # b) = x * y + dot a b"
  by (simp add: dot_def)

lemma dot_commute: "dot a b = dot b a"
proof (induction a arbitrary: b)
  case Nil
  then show ?case by simp
next
  case (Cons x a)
  then show ?case by (cases b) simp_all
qed

lemma dot_lin_right:
  "length x = length a \<Longrightarrow> length a = length b \<Longrightarrow>
   dot x (map2 (\<lambda>u w. u * s + w * t) a b) = s * dot x a + t * dot x b"
proof (induction x a b rule: list_induct3)
  case Nil
  then show ?case by simp
next
  case (Cons x xs a as b bs)
  then show ?case by (simp add: algebra_simps)
qed

lemma dot_lin_left:
  "length x = length a \<Longrightarrow> length a = length b \<Longrightarrow>
   dot (map2 (\<lambda>u w. u * s + w * t) a b) x = s * dot a x + t * dot b x"
proof (induction x a b rule: list_induct3)
  case Nil
  then show ?case by simp
next
  case (Cons x xs a as b bs)
  then show ?case by (simp add: algebra_simps)
qed

lemma length_lin [simp]:
  "length a = length b \<Longrightarrow> length (map2 (\<lambda>u w. u * s + w * t) a b) = length a"
  by simp

lemma dot_lin_lin:
  assumes "length a = length b"
  shows "dot (map2 (\<lambda>u w. u * s + w * t) a b) (map2 (\<lambda>u w. u * s' + w * t') a b)
       = s * s' * dot a a + (s * t' + t * s') * dot a b + t * t' * dot b b"
proof -
  have "dot (map2 (\<lambda>u w. u * s + w * t) a b) (map2 (\<lambda>u w. u * s' + w * t') a b)
      = s' * dot (map2 (\<lambda>u w. u * s + w * t) a b) a + t' * dot (map2 (\<lambda>u w. u * s + w * t) a b) b"
    using assms by (intro dot_lin_right) simp_all
  also have "\<dots> = s' * (s * dot a a + t * dot b a) + t' * (s * dot a b + t * dot b b)"
    using assms by (simp add: dot_lin_left)
  finally show ?thesis by (simp add: algebra_simps dot_commute[of b a])
qed

lemma gram_det_lin:
  assumes "length a = length b"
  shows "gram_det (map2 (\<lambda>u w. u * s + w * t) a b, map2 (\<lambda>u w. u * s' + w * t') a b)
       = (s * t' - t * s') * (s * t' - t * s') * gram_det (a, b)"
  unfolding gram_det_def fst_conv snd_conv dot_lin_lin[OF assms]
  by (simp add: algebra_simps)

lemma dot_self_nonneg: "0 \<le> dot v v"
  by (induction v) simp_all

lemma dot_self_zero: "dot v v = 0 \<Longrightarrow> v = replicate (length v) 0"
proof (induction v)
  case Nil
  then show ?case by simp
next
  case (Cons x v)
  have "0 \<le> x * x" by simp
  moreover have "0 \<le> dot v v" by (rule dot_self_nonneg)
  moreover from Cons.prems have "x * x + dot v v = 0" by simp
  ultimately have "x * x = 0" "dot v v = 0" by linarith+
  then show ?case using Cons.IH by simp
qed

lemma dot_replicate_zero [simp]: "dot (replicate n 0) b = 0"
proof (induction n arbitrary: b)
  case 0
  then show ?case by simp
next
  case (Suc n)
  then show ?case by (cases b) simp_all
qed

lemma dot_replicate_zero_right [simp]: "dot b (replicate n 0) = 0"
proof (induction n arbitrary: b)
  case 0
  then show ?case by simp
next
  case (Suc n)
  then show ?case by (cases b) simp_all
qed

lemma lin_1_0: "length a = length b \<Longrightarrow> map2 (\<lambda>u w. u * 1 + w * 0) a b = (a::real list)"
  by (induction a b rule: list_induct2) simp_all

lemma lin_0_1: "length a = length b \<Longrightarrow> map2 (\<lambda>u w. u * 0 + w * 1) a b = (b::real list)"
  by (induction a b rule: list_induct2) simp_all

text \<open>The Gram determinant vanishes exactly for linearly dependent columns.\<close>

lemma gram_det_zero_iff:
  assumes len: "length a = length b"
  shows "gram_det (a, b) = 0 \<longleftrightarrow>
         (\<exists>s t. (s \<noteq> 0 \<or> t \<noteq> 0) \<and> map2 (\<lambda>u w. u * s + w * t) a b = replicate (length a) 0)"
proof
  assume g: "gram_det (a, b) = 0"
  show "\<exists>s t. (s \<noteq> 0 \<or> t \<noteq> 0) \<and> map2 (\<lambda>u w. u * s + w * t) a b = replicate (length a) 0"
  proof (cases "dot a a = 0")
    case True
    then have "a = replicate (length a) 0" by (rule dot_self_zero)
    then have "map2 (\<lambda>u w. u * 1 + w * 0) a b = replicate (length a) 0"
      using lin_1_0[OF len] by simp
    then show ?thesis by (intro exI[of _ 1] exI[of _ 0]) simp
  next
    case False
    let ?v = "map2 (\<lambda>u w. u * (- dot a b) + w * dot a a) a b"
    have "dot ?v ?v = (- dot a b) * (- dot a b) * dot a a
        + ((- dot a b) * dot a a + dot a a * (- dot a b)) * dot a b + dot a a * dot a a * dot b b"
      by (rule dot_lin_lin[OF len])
    also have "\<dots> = dot a a * gram_det (a, b)"
      by (simp add: gram_det_def algebra_simps)
    finally have "dot ?v ?v = dot a a * gram_det (a, b)" .
    then have "dot ?v ?v = 0" using g by simp
    then have "?v = replicate (length ?v) 0" by (rule dot_self_zero)
    then have "?v = replicate (length a) 0" using len by simp
    with False show ?thesis by blast
  qed
next
  assume "\<exists>s t. (s \<noteq> 0 \<or> t \<noteq> 0) \<and> map2 (\<lambda>u w. u * s + w * t) a b = replicate (length a) 0"
  then obtain s t where st: "s \<noteq> 0 \<or> t \<noteq> 0"
    and z: "map2 (\<lambda>u w. u * s + w * t) a b = replicate (length a) 0" by blast
  have z0: "gram_det (replicate (length a) 0, x) = 0" "gram_det (x, replicate (length a) 0) = 0" for x
    by (simp_all add: gram_det_def)
  show "gram_det (a, b) = 0"
  proof (cases "s = 0")
    case False
    have "gram_det (map2 (\<lambda>u w. u * s + w * t) a b, map2 (\<lambda>u w. u * 0 + w * 1) a b)
        = (s * 1 - t * 0) * (s * 1 - t * 0) * gram_det (a, b)"
      by (rule gram_det_lin[OF len])
    then have "s * s * gram_det (a, b) = 0" using z z0 by simp
    with False show ?thesis by simp
  next
    case True
    with st have t: "t \<noteq> 0" by simp
    have "gram_det (map2 (\<lambda>u w. u * 1 + w * 0) a b, map2 (\<lambda>u w. u * s + w * t) a b)
        = (1 * t - 0 * s) * (1 * t - 0 * s) * gram_det (a, b)"
      by (rule gram_det_lin[OF len])
    then have "t * t * gram_det (a, b) = 0" using z z0 by simp
    with t show ?thesis by simp
  qed
qed

lemma vadd_same_length: "length v = length a \<Longrightarrow> vadd v a = Inr (map2 (+) v a)"
  by (simp add: vadd_def bcast_def)

lemma vsub_same_length: "length v = length a \<Longrightarrow> vsub v a = Inr (map2 (-) v a)"
  by (simp add: vsub_def bcast_def)

lemma map2_add_sub_cancel: "length v = length a \<Longrightarrow> map2 (-) (map2 (+) v a) a = (v::real list)"
  by (induction v a rule: list_induct2) simp_all

lemma mat_vec_lin:
  "length coord = 2 \<Longrightarrow>
   mat_vec B coord = Inr (map2 (\<lambda>u w. u * coord ! 0 + w * coord ! 1) (fst B) (snd B))"
  by (simp add: mat_vec_def)

lemma matT_vec_lin:
  assumes "orthonormal B"
  shows "matT_vec B (map2 (\<lambda>u w. u * s + w * t) (fst B) (snd B)) = Inr [s, t]"
proof -
  from assms have len: "length (fst B) = length (snd B)"
    and o: "dot (fst B) (fst B) = 1" "dot (snd B) (snd B) = 1" "dot (fst B) (snd B) = 0"
    by (simp_all add: orthonormal_def)
  have 1: "dot (fst B) (map2 (\<lambda>u w. u * s + w * t) (fst B) (snd B)) = s"
    using dot_lin_right[OF refl len, of s t] o by simp
  have "dot (snd B) (map2 (\<lambda>u w. u * s + w * t) (fst B) (snd B))
      = s * dot (snd B) (fst B) + t * dot (snd B) (snd B)"
    using len by (intro dot_lin_right) simp_all
  then have 2: "dot (snd B) (map2 (\<lambda>u w. u * s + w * t) (fst B) (snd B)) = t"
    using o dot_commute[of "snd B" "fst B"] by simp
  show ?thesis using len by (simp add: matT_vec_def 1 2)
qed

lemma lstsq_lin:
  assumes len: "length (fst B) = length (snd B)" and g: "gram_det B \<noteq> 0"
  shows "lstsq B (map2 (\<lambda>u w. u * s + w * t) (fst B) (snd B)) = Inr [s, t]"
proof -
  let ?p = "dot (fst B) (fst B)" and ?q = "dot (fst B) (snd B)" and ?r = "dot (snd B) (snd B)"
  let ?y = "map2 (\<lambda>u w. u * s + w * t) (fst B) (snd B)"
  have u: "dot (fst B) ?y = s * ?p + t * ?q"
    using dot_lin_right[OF refl len, of s t] by simp
  have "dot (snd B) ?y = s * dot (snd B) (fst B) + t * ?r"
    using len by (intro dot_lin_right) simp_all
  then have v: "dot (snd B) ?y = s * ?q + t * ?r"
    using dot_commute[of "snd B" "fst B"] by simp
  have d: "?p * ?r - ?q * ?q \<noteq> 0" using g by (simp add: gram_det_def)
  have x1: "(?r * (s * ?p + t * ?q) - ?q * (s * ?q + t * ?r)) / (?p * ?r - ?q * ?q) = s"
  proof -
    have "?r * (s * ?p + t * ?q) - ?q * (s * ?q + t * ?r) = s * (?p * ?r - ?q * ?q)"
      by (simp add: algebra_simps)
    then show ?thesis using d by simp
  qed
  have x2: "(?p * (s * ?q + t * ?r) - ?q * (s * ?p + t * ?q)) / (?p * ?r - ?q * ?q) = t"
  proof -
    have "?p * (s * ?q + t * ?r) - ?q * (s * ?p + t * ?q) = t * (?p * ?r - ?q * ?q)"
      by (simp add: algebra_simps)
    then show ?thesis using d by simp
  qed
  show ?thesis
    unfolding lstsq_def Let_def u v using len d x1 x2 by simp
qed

lemma orthonormal_nonempty: "orthonormal B \<Longrightarrow> fst B \<noteq> []"
  by (auto simp: orthonormal_def)

lemma rescale_back:
  assumes "0 < (D::nat)" "length coord = 2"
  shows "map (\<lambda>x. x / sqrt (real D) * sqrt 2)
           [(map (\<lambda>x. x / sqrt 2 * sqrt (real D)) coord) ! 0,
            (map (\<lambda>x. x / sqrt 2 * sqrt (real D)) coord) ! 1] = coord"
proof -
  from assms(2) obtain c0 c1 where c: "coord = [c0, c1]"
    by (cases coord; cases "tl coord") auto
  have "sqrt (real D) \<noteq> 0" using assms(1) by simp
  then show ?thesis by (simp add: c)
qed

lemma two_list: "length (coord::real list) = 2 \<Longrightarrow> [coord ! 0, coord ! 1] = coord"
  by (cases coord; cases "tl coord") auto

text \<open>The round trip on a projector state with independent basis columns.\<close>

lemma project_map_coord:
  fixes p :: "'z projector_scheme"
  assumes len: "length (fst (p_basis p)) = length (snd (p_basis p))"
    and aff: "length (p_affine p) = length (fst (p_basis p))"
    and reg: "if is_ortho (p_scale p) then orthonormal (p_basis p) else gram_det (p_basis p) \<noteq> 0"
    and dim: "p_scale p = Some ''rms_ortho'' \<Longrightarrow> 0 < p_dim p"
    and c: "length coord = 2"
  shows "bind_err (map_coord p coord b) (\<lambda>vec. project p vec b) = Inr coord"
proof -
  let ?B = "p_basis p"
  let ?c' = "if p_scale p = Some ''rms_ortho''
             then map (\<lambda>x. x / sqrt 2 * sqrt (real (p_dim p))) coord else coord"
  let ?v = "map2 (\<lambda>u w. u * ?c' ! 0 + w * ?c' ! 1) (fst ?B) (snd ?B)"
  have lc': "length ?c' = 2" using c by simp
  have lv: "length ?v = length (p_affine p)" using len aff by simp
  have mv: "mat_vec ?B ?c' = Inr ?v" by (rule mat_vec_lin[OF lc'])
  have map_eq: "map_coord p coord b = (if b then Inr (map2 (+) ?v (p_affine p)) else Inr ?v)"
    unfolding map_coord_def Let_def mv using vadd_same_length[OF lv] by simp
  have sub: "(if b then vsub (if b then map2 (+) ?v (p_affine p) else ?v) (p_affine p)
              else Inr (if b then map2 (+) ?v (p_affine p) else ?v)) = Inr ?v"
    using lv by (simp add: vsub_same_length map2_add_sub_cancel)
  have solve: "(if is_ortho (p_scale p) then matT_vec ?B ?v else lstsq ?B ?v) = Inr [?c' ! 0, ?c' ! 1]"
    using reg len by (simp add: matT_vec_lin lstsq_lin)
  have resc: "(if p_scale p = Some ''rms_ortho''
               then map (\<lambda>x. x / sqrt (real (p_dim p)) * sqrt 2) [?c' ! 0, ?c' ! 1]
               else [?c' ! 0, ?c' ! 1]) = coord"
  proof (cases "p_scale p = Some ''rms_ortho''")
    case True
    then show ?thesis using rescale_back[OF dim[OF True] c] by simp
  next
    case False
    then show ?thesis using two_list[OF c] by simp
  qed
  have "project p (if b then map2 (+) ?v (p_affine p) else ?v) b = Inr coord"
    unfolding project_def sub bind_err_simps solve resc ..
  then show ?thesis by (simp add: map_eq split: if_splits)
qed

section \<open>ParamProjector: the constructor\<close>

lemmas pdefs = ll_ParamProjector_def pp_ParamProjector_def ll_init_checks_def pp_init_checks_def
  init_affine_basis_def bind_err_def vadd_def vsub_def bcast_def stack2_def mat_sub_col_def
  mat_vec_def matT_vec_def lstsq_def dot_def is_ortho_def project_def map_coord_def ll_call_def
  pp_call_def ll_call_default_def pp_call_default_def Let_def

lemma pp_ParamProjector_fields:
  assumes "pp_ParamProjector svd_U vec0 vec1 vec2 center scale = Inr q"
  shows "\<exists>affine basis. init_affine_basis vec0 vec1 vec2 center = Inr (affine, basis)
           \<and> p_affine q = affine \<and> p_basis q = (if is_ortho scale then svd_U basis else basis)
           \<and> p_dim q = length vec0 \<and> p_scale q = scale \<and> p_center q = center"
proof -
  from assms obtain ab where ab: "init_affine_basis vec0 vec1 vec2 center = Inr ab"
    by (cases "init_affine_basis vec0 vec1 vec2 center")
       (auto simp: pp_ParamProjector_def split: option.splits)
  obtain affine basis where abp: "ab = (affine, basis)" by (cases ab)
  from assms ab abp obtain ai where ai: "lstsq basis affine = Inr ai"
    by (cases "lstsq basis affine") (auto simp: pp_ParamProjector_def split: option.splits)
  show ?thesis
  proof (cases "is_ortho scale")
    case True
    with assms ab abp ai obtain ai' where "matT_vec (svd_U basis) affine = Inr ai'"
      by (cases "matT_vec (svd_U basis) affine") (auto simp: pp_ParamProjector_def split: option.splits)
    with assms ab abp ai True show ?thesis
      by (auto simp: pp_ParamProjector_def split: option.splits)
  next
    case False
    with assms ab abp ai show ?thesis
      by (auto simp: pp_ParamProjector_def split: option.splits)
  qed
qed

lemma ll_ParamProjector_fields:
  assumes "ll_ParamProjector svd_U vec0 vec1 vec2 center scale = Inr p"
  shows "\<exists>affine basis. init_affine_basis vec0 vec1 vec2 center = Inr (affine, basis)
           \<and> p_affine p = affine \<and> p_basis p = (if is_ortho scale then svd_U basis else basis)
           \<and> p_dim p = length vec0 \<and> p_scale p = scale \<and> p_center p = center"
proof -
  from assms obtain ab where ab: "init_affine_basis vec0 vec1 vec2 center = Inr ab"
    by (cases "init_affine_basis vec0 vec1 vec2 center")
       (auto simp: ll_ParamProjector_def split: option.splits)
  obtain affine basis where "ab = (affine, basis)" by (cases ab)
  with assms ab show ?thesis
    by (auto simp: ll_ParamProjector_def split: option.splits)
qed

lemma valid_center_cases:
  assumes "ll_ParamProjector svd_U vec0 vec1 vec2 center scale = Inr p"
  shows "center \<in> {None, Some '''', Some ''mean'', Some ''minnorm''}"
  using assms by (auto simp: ll_ParamProjector_def ll_init_checks_def split: if_splits option.splits)

lemma init_affine_basis_plain:
  assumes "length vec1 = length vec0" "length vec2 = length vec0"
    and "center \<noteq> Some ''mean''" "center \<noteq> Some ''minnorm''"
  shows "init_affine_basis vec0 vec1 vec2 center
       = Inr (vec0, (map2 (-) vec1 vec0, map2 (-) vec2 vec0))"
  using assms
  by (simp add: init_affine_basis_def stack2_def mat_sub_col_def vsub_same_length)

lemma mean_columns:
  "length (v0::real list) = length v1 \<Longrightarrow> length v1 = length v2 \<Longrightarrow>
   map2 (-) v1 (map (\<lambda>x. x / 3) (map2 (+) (map2 (+) v0 v1) v2))
     = map2 (\<lambda>u w. u * (2 / 3) + w * (- 1 / 3)) (map2 (-) v1 v0) (map2 (-) v2 v0)
   \<and> map2 (-) v2 (map (\<lambda>x. x / 3) (map2 (+) (map2 (+) v0 v1) v2))
     = map2 (\<lambda>u w. u * (- 1 / 3) + w * (2 / 3)) (map2 (-) v1 v0) (map2 (-) v2 v0)"
proof (induction v0 v1 v2 rule: list_induct3)
  case Nil
  then show ?case by simp
next
  case (Cons x xs y ys z zs)
  then show ?case by (simp add: field_simps)
qed

lemma init_affine_basis_mean:
  assumes "length vec1 = length vec0" "length vec2 = length vec0"
  shows "init_affine_basis vec0 vec1 vec2 (Some ''mean'')
       = Inr (map (\<lambda>x. x / 3) (map2 (+) (map2 (+) vec0 vec1) vec2),
              (map2 (\<lambda>u w. u * (2 / 3) + w * (- 1 / 3)) (map2 (-) vec1 vec0) (map2 (-) vec2 vec0),
               map2 (\<lambda>u w. u * (- 1 / 3) + w * (2 / 3)) (map2 (-) vec1 vec0) (map2 (-) vec2 vec0)))"
proof -
  let ?m = "map (\<lambda>x. x / 3) (map2 (+) (map2 (+) vec0 vec1) vec2)"
  have lm: "length ?m = length vec0" using assms by simp
  have "init_affine_basis vec0 vec1 vec2 (Some ''mean'')
      = Inr (?m, (map2 (-) vec1 ?m, map2 (-) vec2 ?m))"
    using assms lm
    by (simp add: init_affine_basis_def stack2_def mat_sub_col_def vsub_same_length vadd_same_length)
  then show ?thesis using mean_columns[of vec0 vec1 vec2] assms by simp
qed

text \<open>
  For a triple that is not collinear the basis has independent columns under the
  centering policies \<open>None\<close>, \<open>''\<close> and \<open>mean\<close>.
\<close>

lemma noncollinear_gram_det:
  assumes init: "init_affine_basis vec0 vec1 vec2 center = Inr (affine, basis)"
    and len: "length vec1 = length vec0" "length vec2 = length vec0"
    and nc: "noncollinear vec0 vec1 vec2"
    and cen: "center \<noteq> Some ''minnorm''"
  shows "gram_det basis \<noteq> 0"
proof (cases "center = Some ''mean''")
  case False
  from init init_affine_basis_plain[OF len False cen]
  have "basis = (map2 (-) vec1 vec0, map2 (-) vec2 vec0)" by auto
  with nc show ?thesis by (simp add: noncollinear_def)
next
  case True
  let ?a = "map2 (-) vec1 vec0" and ?b = "map2 (-) vec2 vec0"
  have lab: "length ?a = length ?b" using len by simp
  from init True init_affine_basis_mean[OF len]
  have "basis = (map2 (\<lambda>u w. u * (2 / 3) + w * (- 1 / 3)) ?a ?b,
                 map2 (\<lambda>u w. u * (- 1 / 3) + w * (2 / 3)) ?a ?b)"
    by simp
  then have "gram_det basis
      = (2 / 3 * (2 / 3) - (- 1 / 3) * (- 1 / 3)) * (2 / 3 * (2 / 3) - (- 1 / 3) * (- 1 / 3))
        * gram_det (?a, ?b)"
    using gram_det_lin[OF lab, of "2 / 3" "- 1 / 3" "- 1 / 3" "2 / 3"] by simp
  then show ?thesis using nc by (simp add: noncollinear_def)
qed

lemma lstsq_length: "lstsq A y = Inr x \<Longrightarrow> length x = 2"
  by (auto simp: lstsq_def Let_def split: if_splits)

lemma init_affine_basis_lengths:
  assumes init: "init_affine_basis vec0 vec1 vec2 center = Inr (affine, basis)"
    and len: "length vec1 = length vec0" "length vec2 = length vec0"
  shows "length affine = length vec0 \<and> length (fst basis) = length vec0
       \<and> length (snd basis) = length vec0"
proof (cases "center = Some ''minnorm''")
  case False
  show ?thesis
  proof (cases "center = Some ''mean''")
    case True
    with init init_affine_basis_mean[OF len] show ?thesis using len by auto
  next
    case nm: False
    with init init_affine_basis_plain[OF len nm False] show ?thesis using len by auto
  qed
next
  case True
  let ?a = "map2 (-) vec1 vec0" and ?b = "map2 (-) vec2 vec0"
  have la: "length ?a = length vec0" "length ?b = length vec0" using len by simp_all
  from init True obtain sol where sol: "lstsq (?a, ?b) (map uminus vec0) = Inr sol"
    using len
    by (cases "lstsq (?a, ?b) (map uminus vec0)")
       (simp_all add: init_affine_basis_def stack2_def mat_sub_col_def vsub_same_length)
  have l2: "length sol = 2" by (rule lstsq_length[OF sol])
  let ?o = "map2 (\<lambda>u w. u * sol ! 0 + w * sol ! 1) ?a ?b"
  have lo: "length ?o = length vec0" using la by simp
  have mv: "mat_vec (?a, ?b) sol = Inr ?o" using mat_vec_lin[OF l2, of "(?a, ?b)"] by simp
  have "init_affine_basis vec0 vec1 vec2 center
      = Inr (map2 (+) vec0 ?o, (map2 (-) ?a ?o, map2 (-) ?b ?o))"
    using True len la lo
    by (simp add: init_affine_basis_def stack2_def mat_sub_col_def vsub_same_length
        vadd_same_length sol mv)
  with init show ?thesis using la lo len by auto
qed

lemma sub_lin_columns:
  "length (a::real list) = length b \<Longrightarrow>
   map2 (-) a (map2 (\<lambda>u w. u * s + w * t) a b) = map2 (\<lambda>u w. u * (1 - s) + w * (- t)) a b
   \<and> map2 (-) b (map2 (\<lambda>u w. u * s + w * t) a b) = map2 (\<lambda>u w. u * (- s) + w * (1 - t)) a b"
  by (induction a b rule: list_induct2) (simp_all add: algebra_simps)

text \<open>
  Under \<open>minnorm\<close> the shifted basis is the original one scaled by \<open>1 - s - t\<close> in the Gram
  determinant, where \<open>(s, t)\<close> is the least-squares solution of line 49: it loses rank
  exactly when \<open>s + t = 1\<close>, that is when the point of the plane nearest to the origin lies
  on the line through \<open>vec1\<close> and \<open>vec2\<close>.
\<close>

lemma minnorm_gram_det:
  assumes init: "init_affine_basis vec0 vec1 vec2 (Some ''minnorm'') = Inr (affine, basis)"
    and len: "length vec1 = length vec0" "length vec2 = length vec0"
    and sol: "lstsq (map2 (-) vec1 vec0, map2 (-) vec2 vec0) (map uminus vec0) = Inr sol"
  shows "gram_det basis
       = (1 - sol ! 0 - sol ! 1) * (1 - sol ! 0 - sol ! 1)
         * gram_det (map2 (-) vec1 vec0, map2 (-) vec2 vec0)"
proof -
  let ?a = "map2 (-) vec1 vec0" and ?b = "map2 (-) vec2 vec0"
  have la: "length ?a = length vec0" "length ?b = length vec0" using len by simp_all
  then have lab: "length ?a = length ?b" by simp
  have l2: "length sol = 2" by (rule lstsq_length[OF sol])
  let ?o = "map2 (\<lambda>u w. u * sol ! 0 + w * sol ! 1) ?a ?b"
  have lo: "length ?o = length vec0" using la by simp
  have mv: "mat_vec (?a, ?b) sol = Inr ?o" using mat_vec_lin[OF l2, of "(?a, ?b)"] by simp
  have "init_affine_basis vec0 vec1 vec2 (Some ''minnorm'')
      = Inr (map2 (+) vec0 ?o, (map2 (-) ?a ?o, map2 (-) ?b ?o))"
    using len la lo
    by (simp add: init_affine_basis_def stack2_def mat_sub_col_def vsub_same_length
        vadd_same_length sol mv)
  with init have "basis = (map2 (-) ?a ?o, map2 (-) ?b ?o)" by simp
  then have b: "basis = (map2 (\<lambda>u w. u * (1 - sol ! 0) + w * (- sol ! 1)) ?a ?b,
                         map2 (\<lambda>u w. u * (- sol ! 0) + w * (1 - sol ! 1)) ?a ?b)"
    using sub_lin_columns[OF lab, of "sol ! 0" "sol ! 1"] by simp
  have "gram_det basis
      = ((1 - sol ! 0) * (1 - sol ! 1) - (- sol ! 1) * (- sol ! 0))
        * ((1 - sol ! 0) * (1 - sol ! 1) - (- sol ! 1) * (- sol ! 0)) * gram_det (?a, ?b)"
    unfolding b by (rule gram_det_lin[OF lab])
  also have "(1 - sol ! 0) * (1 - sol ! 1) - (- sol ! 1) * (- sol ! 0) = 1 - sol ! 0 - sol ! 1"
    by (simp add: algebra_simps)
  finally show ?thesis .
qed

section \<open>The callable of the two drivers\<close>

text \<open>
  Claim C3, as amended. Let both constructors succeed on the same arguments, let \<open>c\<close> be
  a 2-D coordinate and let the parameter dimension differ from 2. Then both states hold
  the same \<open>affine\<close> and \<open>basis\<close>; with its default flag the callable of
  \<^verbatim>\<open>paramplane.py\<close> returns \<open>basis @ c'\<close>, and that of \<^verbatim>\<open>losslandscape.py\<close> returns
  \<open>basis @ c' + affine\<close>, where \<open>c'\<close> is \<open>c\<close> itself unless the scale is \<^verbatim>\<open>rms_ortho\<close>, when
  it is \<open>c / sqrt(2) * sqrt(dim)\<close>. So the two vectors differ by exactly \<open>affine\<close>.
\<close>

theorem C3_call_defaults_differ_by_affine:
  assumes ll: "ll_ParamProjector svd_U vec0 vec1 vec2 center scale = Inr p"
    and pp: "pp_ParamProjector svd_U vec0 vec1 vec2 center scale = Inr q"
    and c: "length c = 2" and d: "length vec0 \<noteq> 2"
  shows "p_affine q = p_affine p \<and> p_basis q = p_basis p \<and>
         (\<exists>v. pp_call_default q c = Inr v
            \<and> mat_vec (p_basis p)
                 (if scale = Some ''rms_ortho''
                  then map (\<lambda>x. x / sqrt 2 * sqrt (real (length vec0))) c else c) = Inr v
            \<and> ll_call_default p c = vadd v (p_affine p))"
proof -
  from ll_ParamProjector_fields[OF ll] pp_ParamProjector_fields[OF pp]
  have eq: "p_affine q = p_affine p" "p_basis q = p_basis p"
    and fp: "p_dim p = length vec0" "p_scale p = scale"
    and fq: "p_dim q = length vec0" "p_scale q = scale"
    by auto
  let ?c' = "if scale = Some ''rms_ortho''
             then map (\<lambda>x. x / sqrt 2 * sqrt (real (length vec0))) c else c"
  have lc': "length ?c' = 2" using c by simp
  then obtain v where v: "mat_vec (p_basis p) ?c' = Inr v"
    by (simp add: mat_vec_def)
  have mq: "map_coord q c False = Inr v"
    unfolding map_coord_def Let_def fq eq v by simp
  have mp: "map_coord p c True = vadd v (p_affine p)"
    unfolding map_coord_def Let_def fp v by simp
  have "pp_call_default q c = Inr v"
    using c d by (simp add: pp_call_default_def pp_call_def fq mq)
  moreover have "ll_call_default p c = vadd v (p_affine p)"
    using c d by (simp add: ll_call_default_def ll_call_def fp mp)
  ultimately show ?thesis using eq v by blast
qed

lemma w_ll: "ll_ParamProjector (\<lambda>B. B) [1, 0, 0] [3, 0, 0] [1, 2, 0] None None
     = Inr \<lparr>p_center = None, p_scale = None, p_dim = 3, p_affine = [1, 0, 0],
            p_basis = ([2, 0, 0], [0, 2, 0])\<rparr>"
  by (simp add: pdefs)

lemma w_pp: "pp_ParamProjector (\<lambda>B. B) [1, 0, 0] [3, 0, 0] [1, 2, 0] None None
     = Inr \<lparr>p_center = None, p_scale = None, p_dim = 3, p_affine = [1, 0, 0],
            p_basis = ([2, 0, 0], [0, 2, 0]), p_affine_inv = [1/2, 0]\<rparr>"
  by (simp add: pdefs)

text \<open>A check of C3 on three vectors of dimension 3.\<close>

theorem C3_call_defaults_differ_by_affine_witness:
  "ll_ParamProjector (\<lambda>B. B) [1, 0, 0] [3, 0, 0] [1, 2, 0] None None
     = Inr \<lparr>p_center = None, p_scale = None, p_dim = 3, p_affine = [1, 0, 0],
            p_basis = ([2, 0, 0], [0, 2, 0])\<rparr>
   \<and> pp_ParamProjector (\<lambda>B. B) [1, 0, 0] [3, 0, 0] [1, 2, 0] None None
     = Inr \<lparr>p_center = None, p_scale = None, p_dim = 3, p_affine = [1, 0, 0],
            p_basis = ([2, 0, 0], [0, 2, 0]), p_affine_inv = [1/2, 0]\<rparr>
   \<and> length [1, 1 :: real] = 2 \<and> length [1, 0, 0 :: real] \<noteq> 2
   \<and> pp_call_default \<lparr>p_center = None, p_scale = None, p_dim = 3, p_affine = [1, 0, 0],
            p_basis = ([2, 0, 0], [0, 2, 0]), p_affine_inv = [1/2, 0]\<rparr> [1, 1] = Inr [2, 2, 0]
   \<and> ll_call_default \<lparr>p_center = None, p_scale = None, p_dim = 3, p_affine = [1, 0, 0],
            p_basis = ([2, 0, 0], [0, 2, 0])\<rparr> [1, 1] = Inr [3, 2, 0]"
proof -
  have c: "length [1, 1 :: real] = 2" and d: "length [1, 0, 0 :: real] \<noteq> 2" by simp_all
  from C3_call_defaults_differ_by_affine[OF w_ll w_pp c d]
  obtain v where v1: "pp_call_default \<lparr>p_center = None, p_scale = None, p_dim = 3, p_affine = [1, 0, 0],
            p_basis = ([2, 0, 0], [0, 2, 0]), p_affine_inv = [1/2, 0]\<rparr> [1, 1] = Inr v"
    and v2: "mat_vec ([2, 0, 0], [0, 2, 0]) [1, 1] = Inr v"
    and v3: "ll_call_default \<lparr>p_center = None, p_scale = None, p_dim = 3, p_affine = [1, 0, 0],
            p_basis = ([2, 0, 0], [0, 2, 0])\<rparr> [1, 1] = vadd v [1, 0, 0]"
    by auto
  from v2 have "v = [2, 2, 0]" by (simp add: mat_vec_def)
  with v1 v3 show ?thesis using w_ll w_pp c d by (simp add: vadd_def bcast_def)
qed

text \<open>
  Claim C3 as stated (the callable of \<^verbatim>\<open>paramplane.py\<close> returns \<open>basis @ c\<close> and that of
  \<^verbatim>\<open>losslandscape.py\<close> returns \<open>basis @ c + affine\<close>, for every projector state) fails in two
  ways. With parameter dimension 2 the input has length \<open>dim\<close> and \<^verbatim>\<open>__call__\<close> projects
  it instead of mapping it: for \<open>vec0 = (1, 0)\<close>, \<open>vec1 = (3, 0)\<close>, \<open>vec2 = (1, 2)\<close> and
  \<open>c = (1, 1)\<close> the results are \<open>(1/2, 1/2)\<close> and \<open>(0, 1/2)\<close>, while \<open>basis @ c = (2, 2)\<close>
  and \<open>affine = (1, 0)\<close>. With the scale \<^verbatim>\<open>rms_ortho\<close> the coordinate is rescaled first: for
  the orthonormal columns \<open>(1, 0, 0)\<close>, \<open>(0, 1, 0)\<close> (which are their own left singular
  vectors) and \<open>c = (1, 1)\<close> the result has entries \<open>sqrt 3 / sqrt 2\<close>, not 1.
\<close>

theorem C3_call_counterexample:
  "pp_ParamProjector (\<lambda>B. B) [1, 0] [3, 0] [1, 2] None None
     = Inr \<lparr>p_center = None, p_scale = None, p_dim = 2, p_affine = [1, 0],
            p_basis = ([2, 0], [0, 2]), p_affine_inv = [1 / 2, 0]\<rparr>
   \<and> ll_ParamProjector (\<lambda>B. B) [1, 0] [3, 0] [1, 2] None None
     = Inr \<lparr>p_center = None, p_scale = None, p_dim = 2, p_affine = [1, 0],
            p_basis = ([2, 0], [0, 2])\<rparr>
   \<and> pp_call_default \<lparr>p_center = None, p_scale = None, p_dim = 2, p_affine = [1, 0],
            p_basis = ([2, 0], [0, 2]), p_affine_inv = [1 / 2, 0]\<rparr> [1, 1] = Inr [1 / 2, 1 / 2]
   \<and> ll_call_default \<lparr>p_center = None, p_scale = None, p_dim = 2, p_affine = [1, 0],
            p_basis = ([2, 0], [0, 2])\<rparr> [1, 1] = Inr [0, 1 / 2]
   \<and> mat_vec ([2, 0], [0, 2]) [1, 1] = Inr [2, 2]
   \<and> pp_ParamProjector (\<lambda>B. B) [0, 0, 0] [1, 0, 0] [0, 1, 0] None (Some ''rms_ortho'')
     = Inr \<lparr>p_center = None, p_scale = Some ''rms_ortho'', p_dim = 3, p_affine = [0, 0, 0],
            p_basis = ([1, 0, 0], [0, 1, 0]), p_affine_inv = [0, 0]\<rparr>
   \<and> pp_call_default \<lparr>p_center = None, p_scale = Some ''rms_ortho'', p_dim = 3,
            p_affine = [0, 0, 0], p_basis = ([1, 0, 0], [0, 1, 0]), p_affine_inv = [0, 0]\<rparr> [1, 1]
     = Inr [sqrt 3 / sqrt 2, sqrt 3 / sqrt 2, 0]
   \<and> mat_vec ([1, 0, 0], [0, 1, 0]) [1, 1] = Inr [1, 1, 0]
   \<and> sqrt 3 / sqrt 2 \<noteq> (1::real)"
  by (simp add: pdefs)

section \<open>Round trip of \<^verbatim>\<open>map\<close> and \<^verbatim>\<open>project\<close>\<close>

text \<open>
  Claim C2, as amended. Let the constructor succeed on three vectors of one length, and
  let \<open>c\<close> be a 2-D coordinate. Then \<open>project(map(c, b), b) = c\<close> for both values of \<open>b\<close>,
  in exact arithmetic, provided that
  \<^item> under the scales \<^verbatim>\<open>l2_ortho\<close> and \<^verbatim>\<open>rms_ortho\<close>, the matrix returned by the singular value
    decomposition has orthonormal columns with as many rows as the vectors have entries;
  \<^item> under the other scales and the centering \<^verbatim>\<open>minnorm\<close>, the columns of the shifted basis
    are linearly independent (lemma \<open>minnorm_gram_det\<close> says when);
  \<^item> under the other scales and the centerings \<open>None\<close>, \<^verbatim>\<open>''\<close> and \<^verbatim>\<open>mean\<close>, the three vectors
    are not collinear.
\<close>

theorem C2_roundtrip:
  assumes init: "ll_ParamProjector svd_U vec0 vec1 vec2 center scale = Inr p"
    and len: "length vec1 = length vec0" "length vec2 = length vec0"
    and c: "length coord = 2"
    and reg: "if is_ortho scale
              then orthonormal (p_basis p) \<and> length (fst (p_basis p)) = length vec0
              else if center = Some ''minnorm'' then gram_det (p_basis p) \<noteq> 0
              else noncollinear vec0 vec1 vec2"
  shows "bind_err (map_coord p coord b) (\<lambda>vec. project p vec b) = Inr coord"
proof -
  from ll_ParamProjector_fields[OF init] obtain affine basis where
    ab: "init_affine_basis vec0 vec1 vec2 center = Inr (affine, basis)"
    and f: "p_affine p = affine" "p_basis p = (if is_ortho scale then svd_U basis else basis)"
       "p_dim p = length vec0" "p_scale p = scale"
    by blast
  from init_affine_basis_lengths[OF ab len] have
    la: "length affine = length vec0" and lb: "length (fst basis) = length vec0"
       "length (snd basis) = length vec0" by simp_all
  show ?thesis
  proof (rule project_map_coord[OF _ _ _ _ c])
    show "length (fst (p_basis p)) = length (snd (p_basis p))"
      using reg lb by (auto simp: f orthonormal_def split: if_splits)
    show "length (p_affine p) = length (fst (p_basis p))"
      using reg la lb by (auto simp: f split: if_splits)
    show "if is_ortho (p_scale p) then orthonormal (p_basis p) else gram_det (p_basis p) \<noteq> 0"
    proof (cases "is_ortho scale")
      case True
      with reg show ?thesis by (simp add: f)
    next
      case False
      show ?thesis
      proof (cases "center = Some ''minnorm''")
        case True
        with reg False show ?thesis by (simp add: f)
      next
        case nm: False
        with reg False have "noncollinear vec0 vec1 vec2" by simp
        from noncollinear_gram_det[OF ab len this nm] False show ?thesis by (simp add: f)
      qed
    qed
    show "0 < p_dim p" if "p_scale p = Some ''rms_ortho''"
    proof -
      from that have "is_ortho scale" by (simp add: f is_ortho_def)
      with reg have o: "orthonormal (p_basis p)" and l: "length (fst (p_basis p)) = length vec0"
        by simp_all
      from orthonormal_nonempty[OF o] have "0 < length (fst (p_basis p))" by simp
      then show ?thesis using l f(3) by simp
    qed
  qed
qed

lemma w6: "ll_ParamProjector (\<lambda>B. B) [0, 0, 1] [1, 0, 1] [0, 1, 1] None (Some ''rms_ortho'')
     = Inr \<lparr>p_center = None, p_scale = Some ''rms_ortho'', p_dim = 3, p_affine = [0, 0, 1],
            p_basis = ([1, 0, 0], [0, 1, 0])\<rparr>"
  by (simp add: pdefs)

lemma w2a: "ll_ParamProjector (\<lambda>B. B) [1, 1, 0] [3, 1, 0] [1, 4, 0] (Some ''mean'') None
     = Inr \<lparr>p_center = Some ''mean'', p_scale = None, p_dim = 3, p_affine = [5 / 3, 2, 0],
            p_basis = ([4 / 3, - 1, 0], [- 2 / 3, 2, 0])\<rparr>"
  by (simp add: pdefs)

text \<open>
  A check of C2 under \<^verbatim>\<open>mean\<close> with no scaling, and under \<^verbatim>\<open>rms_ortho\<close> on columns that are
  their own left singular vectors.
\<close>

theorem C2_roundtrip_witness:
  "ll_ParamProjector (\<lambda>B. B) [1, 1, 0] [3, 1, 0] [1, 4, 0] (Some ''mean'') None
     = Inr \<lparr>p_center = Some ''mean'', p_scale = None, p_dim = 3, p_affine = [5 / 3, 2, 0],
            p_basis = ([4 / 3, - 1, 0], [- 2 / 3, 2, 0])\<rparr>
   \<and> noncollinear [1, 1, 0] [3, 1, 0] [1, 4, 0]
   \<and> bind_err (map_coord \<lparr>p_center = Some ''mean'', p_scale = None, p_dim = 3,
                  p_affine = [5 / 3, 2, 0], p_basis = ([4 / 3, - 1, 0], [- 2 / 3, 2, 0])\<rparr> [2, 1] True)
        (\<lambda>vec. project \<lparr>p_center = Some ''mean'', p_scale = None, p_dim = 3,
                  p_affine = [5 / 3, 2, 0], p_basis = ([4 / 3, - 1, 0], [- 2 / 3, 2, 0])\<rparr> vec True)
     = Inr [2, 1]
   \<and> orthonormal ([1, 0, 0], [0, 1, 0])
   \<and> bind_err (map_coord \<lparr>p_center = None, p_scale = Some ''rms_ortho'', p_dim = 3,
                  p_affine = [0, 0, 1], p_basis = ([1, 0, 0], [0, 1, 0])\<rparr> [2, 1] False)
        (\<lambda>vec. project \<lparr>p_center = None, p_scale = Some ''rms_ortho'', p_dim = 3,
                  p_affine = [0, 0, 1], p_basis = ([1, 0, 0], [0, 1, 0])\<rparr> vec False)
     = Inr [2, 1]"
proof -
  have l: "length [3, 1, 0 :: real] = length [1, 1, 0 :: real]"
          "length [1, 4, 0 :: real] = length [1, 1, 0 :: real]"
    and c: "length [2, 1 :: real] = 2" by simp_all
  have nc: "noncollinear [1, 1, 0] [3, 1, 0] [1, 4, 0]"
    by (simp add: noncollinear_def gram_det_def)
  have r1: "if is_ortho None
            then orthonormal (p_basis \<lparr>p_center = Some ''mean'', p_scale = None, p_dim = 3,
                   p_affine = [5 / 3, 2, 0], p_basis = ([4 / 3, - 1, 0], [- 2 / 3, 2, 0])\<rparr>)
               \<and> length (fst (p_basis \<lparr>p_center = Some ''mean'', p_scale = None, p_dim = 3,
                   p_affine = [5 / 3, 2, 0], p_basis = ([4 / 3, - 1, 0], [- 2 / 3, 2, 0])\<rparr>))
                 = length [1, 1, 0 :: real]
            else if Some ''mean'' = Some ''minnorm''
              then gram_det (p_basis \<lparr>p_center = Some ''mean'', p_scale = None, p_dim = 3,
                   p_affine = [5 / 3, 2, 0], p_basis = ([4 / 3, - 1, 0], [- 2 / 3, 2, 0])\<rparr>) \<noteq> 0
              else noncollinear [1, 1, 0] [3, 1, 0] [1, 4, 0]"
    using nc by (simp add: is_ortho_def)
  have l2: "length [1, 0, 1 :: real] = length [0, 0, 1 :: real]"
           "length [0, 1, 1 :: real] = length [0, 0, 1 :: real]" by simp_all
  have o: "orthonormal ([1, 0, 0], [0, 1, 0])" by (simp add: orthonormal_def)
  have r2: "if is_ortho (Some ''rms_ortho'')
            then orthonormal (p_basis \<lparr>p_center = None, p_scale = Some ''rms_ortho'', p_dim = 3,
                   p_affine = [0, 0, 1], p_basis = ([1, 0, 0], [0, 1, 0])\<rparr>)
               \<and> length (fst (p_basis \<lparr>p_center = None, p_scale = Some ''rms_ortho'', p_dim = 3,
                   p_affine = [0, 0, 1], p_basis = ([1, 0, 0], [0, 1, 0])\<rparr>))
                 = length [0, 0, 1 :: real]
            else if None = Some ''minnorm''
              then gram_det (p_basis \<lparr>p_center = None, p_scale = Some ''rms_ortho'', p_dim = 3,
                   p_affine = [0, 0, 1], p_basis = ([1, 0, 0], [0, 1, 0])\<rparr>) \<noteq> 0
              else noncollinear [0, 0, 1] [1, 0, 1] [0, 1, 1]"
    using o by (simp add: is_ortho_def)
  note i1 = C2_roundtrip[OF w2a l c r1, of True]
  note i2 = C2_roundtrip[OF w6 l2 c r2, of False]
  show ?thesis by (intro conjI w2a nc i1 o i2)
qed

text \<open>
  Claim C2 as stated (the round trip holds for every triple that is not collinear, under
  every policy) fails under \<^verbatim>\<open>minnorm\<close> without an orthogonal scale. The vectors \<open>(0, 1)\<close>,
  \<open>(1, 0)\<close>, \<open>(-1, 0)\<close> are not collinear; the point of their plane nearest to the origin
  is the origin, which lies on the line through \<open>vec1\<close> and \<open>vec2\<close>, so the shifted basis
  has the columns \<open>(1, 0)\<close> and \<open>(-1, 0)\<close>. \<^verbatim>\<open>map\<close> sends the coordinates \<open>(1, 0)\<close> and
  \<open>(2, 1)\<close> to the same vector, so no \<^verbatim>\<open>project\<close> can return both; the least-squares
  solution of minimal norm returns \<open>(1/2, -1/2)\<close>.
\<close>

theorem C2_minnorm_counterexample:
  "noncollinear [0, 1] [1, 0] [- 1, 0]
   \<and> ll_ParamProjector (\<lambda>B. B) [0, 1] [1, 0] [- 1, 0] (Some ''minnorm'') None
       = Inr \<lparr>p_center = Some ''minnorm'', p_scale = None, p_dim = 2, p_affine = [0, 0],
              p_basis = ([1, 0], [- 1, 0])\<rparr>
   \<and> map_coord \<lparr>p_center = Some ''minnorm'', p_scale = None, p_dim = 2, p_affine = [0, 0],
              p_basis = ([1, 0], [- 1, 0])\<rparr> [1, 0] True = Inr [1, 0]
   \<and> map_coord \<lparr>p_center = Some ''minnorm'', p_scale = None, p_dim = 2, p_affine = [0, 0],
              p_basis = ([1, 0], [- 1, 0])\<rparr> [2, 1] True = Inr [1, 0]
   \<and> project \<lparr>p_center = Some ''minnorm'', p_scale = None, p_dim = 2, p_affine = [0, 0],
              p_basis = ([1, 0], [- 1, 0])\<rparr> [1, 0] True = Inr [1 / 2, - 1 / 2]"
  by (simp add: pdefs noncollinear_def gram_det_def)

section \<open>Root mean square under \<^verbatim>\<open>rms_ortho\<close>\<close>

lemma sum_squares_dot: "sum_list (map (\<lambda>x. x * x) v) = dot v v"
  by (induction v) simp_all

text \<open>
  Claim C6 (under \<^verbatim>\<open>rms_ortho\<close> the vector \<open>map(c, is_position=False)\<close> has the root mean
  square of \<open>c\<close>: \<^verbatim>\<open>map\<close> rescales \<open>c\<close> by \<open>sqrt(dim/2)\<close> before applying the basis and
  \<^verbatim>\<open>project\<close> rescales by \<open>sqrt(2/dim)\<close> after projecting). It holds in exact arithmetic for
  a constructed projector whose basis, the matrix returned by the singular value
  decomposition, has orthonormal columns with as many rows as the vectors have entries.
\<close>

theorem C6_rms_preserved:
  assumes init: "ll_ParamProjector svd_U vec0 vec1 vec2 center (Some ''rms_ortho'') = Inr p"
    and svd: "orthonormal (p_basis p)" "length (fst (p_basis p)) = length vec0"
    and c: "length coord = 2"
    and y: "length y = length vec0"
  shows "(\<exists>v. map_coord p coord False = Inr v
             \<and> mat_vec (p_basis p) (map (\<lambda>x. x * sqrt (real (length vec0) / 2)) coord) = Inr v
             \<and> length v = length vec0
             \<and> rms v = rms coord)
       \<and> project p y False
           = Inr (map (\<lambda>x. x * sqrt (2 / real (length vec0)))
                   [dot (fst (p_basis p)) y, dot (snd (p_basis p)) y])"
proof -
  from ll_ParamProjector_fields[OF init]
  have f: "p_dim p = length vec0" "p_scale p = Some ''rms_ortho''" by auto
  let ?D = "real (length vec0)"
  let ?B = "p_basis p"
  from svd have len: "length (fst ?B) = length (snd ?B)"
    and o: "dot (fst ?B) (fst ?B) = 1" "dot (snd ?B) (snd ?B) = 1" "dot (fst ?B) (snd ?B) = 0"
    by (simp_all add: orthonormal_def)
  from orthonormal_nonempty[OF svd(1)] svd(2) have Dpos: "0 < ?D" by auto
  from c obtain c0 c1 where cc: "coord = [c0, c1]"
    by (cases coord; cases "tl coord") auto
  let ?k = "sqrt (?D / 2)"
  have k: "\<And>x. x / sqrt 2 * sqrt ?D = x * ?k"
    by (simp add: real_sqrt_divide)
  let ?c' = "map (\<lambda>x. x * ?k) coord"
  let ?v = "map2 (\<lambda>u w. u * ?c' ! 0 + w * ?c' ! 1) (fst ?B) (snd ?B)"
  have lc': "length ?c' = 2" using c by simp
  have mv: "mat_vec ?B ?c' = Inr ?v" by (rule mat_vec_lin[OF lc'])
  have m: "map_coord p coord False = Inr ?v"
    unfolding map_coord_def Let_def f k using mv by simp
  have lv: "length ?v = length vec0" using len svd(2) by simp
  have kk: "?k * ?k = ?D / 2" using Dpos by simp
  have "dot ?v ?v = ?c' ! 0 * ?c' ! 0 * dot (fst ?B) (fst ?B)
        + (?c' ! 0 * ?c' ! 1 + ?c' ! 1 * ?c' ! 0) * dot (fst ?B) (snd ?B)
        + ?c' ! 1 * ?c' ! 1 * dot (snd ?B) (snd ?B)"
    by (rule dot_lin_lin[OF len])
  also have "\<dots> = (c0 * c0 + c1 * c1) * (?k * ?k)"
    by (simp add: o cc algebra_simps)
  also have "\<dots> = (c0 * c0 + c1 * c1) * (?D / 2)" by (simp only: kk)
  finally have dv: "dot ?v ?v = (c0 * c0 + c1 * c1) * (?D / 2)" .
  have "rms ?v = sqrt ((c0 * c0 + c1 * c1) * (?D / 2) / ?D)"
    unfolding rms_def sum_squares_dot dv lv ..
  also have "(c0 * c0 + c1 * c1) * (?D / 2) / ?D = (c0 * c0 + c1 * c1) / 2"
    using Dpos by simp
  also have "sqrt ((c0 * c0 + c1 * c1) / 2) = rms coord"
    by (simp add: rms_def cc)
  finally have r: "rms ?v = rms coord" .
  have k2: "\<And>x. x / sqrt ?D * sqrt 2 = x * sqrt (2 / ?D)"
    by (simp add: real_sqrt_divide)
  have ly: "length y = length (fst ?B)" using y svd(2) by simp
  have pr: "project p y False
      = Inr (map (\<lambda>x. x * sqrt (2 / ?D)) [dot (fst ?B) y, dot (snd ?B) y])"
    unfolding project_def f k2 using ly by (simp add: is_ortho_def matT_vec_def)
  from m mv lv r pr show ?thesis by blast
qed

text \<open>A check of C6 on columns that are their own left singular vectors.\<close>

theorem C6_rms_preserved_witness:
  "ll_ParamProjector (\<lambda>B. B) [0, 0, 1] [1, 0, 1] [0, 1, 1] None (Some ''rms_ortho'')
     = Inr \<lparr>p_center = None, p_scale = Some ''rms_ortho'', p_dim = 3, p_affine = [0, 0, 1],
            p_basis = ([1, 0, 0], [0, 1, 0])\<rparr>
   \<and> orthonormal ([1, 0, 0], [0, 1, 0])
   \<and> length [2, 1 :: real] = 2
   \<and> (\<exists>v. map_coord \<lparr>p_center = None, p_scale = Some ''rms_ortho'', p_dim = 3,
                       p_affine = [0, 0, 1], p_basis = ([1, 0, 0], [0, 1, 0])\<rparr> [2, 1] False = Inr v
          \<and> length v = 3 \<and> rms v = rms [2, 1])"
proof -
  have o: "orthonormal (p_basis \<lparr>p_center = None, p_scale = Some ''rms_ortho'', p_dim = 3,
              p_affine = [0, 0, 1], p_basis = ([1, 0, 0], [0, 1, 0])\<rparr>)"
    by (simp add: orthonormal_def)
  have l: "length (fst (p_basis \<lparr>p_center = None, p_scale = Some ''rms_ortho'', p_dim = 3,
              p_affine = [0, 0, 1], p_basis = ([1, 0, 0], [0, 1, 0])\<rparr>)) = length [0, 0, 1 :: real]"
    by simp
  have c: "length [2, 1 :: real] = 2" and y: "length [0, 0, 0 :: real] = length [0, 0, 1 :: real]"
    by simp_all
  from C6_rms_preserved[OF w6 o l c y] w6 o c show ?thesis by auto
qed

section \<open>ParamProjector: orthonormal basis under the orthogonal scales\<close>

lemma dot_map_div: "dot (map (\<lambda>x. x / c) v) (map (\<lambda>x. x / d) w) = dot v w / (c * d)"
proof (induction v arbitrary: w)
  case Nil
  then show ?case by simp
next
  case (Cons x v)
  then show ?case by (cases w) (simp_all add: add_divide_distrib)
qed

lemma length_normalize [simp]: "length (normalize v) = length v"
  by (simp add: normalize_def)

lemma normalize_unit: "dot v v \<noteq> 0 \<Longrightarrow> dot (normalize v) (normalize v) = 1"
proof -
  assume nz: "dot v v \<noteq> 0"
  have "0 \<le> dot v v" by (rule dot_self_nonneg)
  then have "sqrt (dot v v) * sqrt (dot v v) = dot v v" by simp
  then show ?thesis using nz by (simp add: normalize_def dot_map_div)
qed

lemma normalize_orthogonal: "dot v w = 0 \<Longrightarrow> dot (normalize v) (normalize w) = 0"
  by (simp add: normalize_def dot_map_div)

lemma dot_sum: "length a = length b \<Longrightarrow> dot a b = (\<Sum>i<length a. a ! i * b ! i)"
proof (induction a b rule: list_induct2)
  case Nil
  then show ?case by simp
next
  case (Cons x xs y ys)
  then show ?case by (simp add: sum.lessThan_Suc_shift del: sum.lessThan_Suc)
qed

lemma length_unit_vec [simp]: "length (unit_vec D i) = D"
  by (simp add: unit_vec_def)

lemma nth_unit_vec: "j < D \<Longrightarrow> unit_vec D i ! j = (if j = i then 1 else 0)"
  by (simp add: unit_vec_def)

lemma dot_unit_vec_right: "i < length u \<Longrightarrow> dot u (unit_vec (length u) i) = u ! i"
proof -
  assume i: "i < length u"
  have "dot u (unit_vec (length u) i) = (\<Sum>j<length u. u ! j * unit_vec (length u) i ! j)"
    by (rule dot_sum) simp
  also have "\<dots> = (\<Sum>j<length u. if j = i then u ! j else 0)"
    by (intro sum.cong) (simp_all add: nth_unit_vec)
  also have "\<dots> = u ! i" using i by simp
  finally show ?thesis .
qed

lemma dot_unit_vec_left: "i < length u \<Longrightarrow> dot (unit_vec (length u) i) u = u ! i"
  using dot_unit_vec_right[of i u] by (simp add: dot_commute[of "unit_vec (length u) i" u])

lemma dot_unit_vecs: "i < D \<Longrightarrow> j < D \<Longrightarrow> dot (unit_vec D i) (unit_vec D j) = (if i = j then 1 else 0)"
  using dot_unit_vec_left[of i "unit_vec D j"] by (simp add: nth_unit_vec)

lemma first_two_squares:
  assumes "2 \<le> length u"
  shows "u ! 0 * u ! 0 + u ! 1 * u ! 1 \<le> dot u u"
proof -
  from assms obtain x y rest where u: "u = x # y # rest"
    by (cases u; cases "tl u") auto
  have "0 \<le> dot rest rest" by (rule dot_self_nonneg)
  then show ?thesis by (simp add: u)
qed

lemma sub_as_lin: "map2 (\<lambda>x y. x - k * y) e u = map2 (\<lambda>x y. x * 1 + y * (- k)) e (u::real list)"
  by (simp add: algebra_simps)

lemma complete_unit_props:
  assumes unit: "dot u u = 1" and D: "2 \<le> length u"
  shows "length (complete_unit u) = length u"
    and "dot (complete_unit u) (complete_unit u) = 1"
    and "dot u (complete_unit u) = 0"
proof -
  define e where "e = (if u ! 0 * u ! 0 = 1 then unit_vec (length u) 1 else unit_vec (length u) 0)"
  define k where "k = dot u e"
  define w where "w = map2 (\<lambda>x y. x * 1 + y * (- k)) e u"
  have le: "length e = length u" by (simp add: e_def)
  have cu: "complete_unit u = normalize w"
    by (simp add: complete_unit_def Let_def e_def[symmetric] k_def[symmetric] w_def sub_as_lin)
  have D01: "0 < length u" "1 < length u" using D by linarith+
  have ee: "dot e e = 1" using D01 by (simp add: e_def dot_unit_vecs)
  have eu: "dot e u = k" by (simp add: k_def dot_commute[of e u])
  have ww: "dot w w = 1 - k * k"
  proof -
    have "dot w w = 1 * 1 * dot e e + (1 * (- k) + (- k) * 1) * dot e u + (- k) * (- k) * dot u u"
      unfolding w_def by (rule dot_lin_lin[OF le])
    then show ?thesis by (simp add: ee eu unit algebra_simps)
  qed
  have uw: "dot u w = 0"
  proof -
    have "dot u w = 1 * dot u e + (- k) * dot u u"
      unfolding w_def using le by (intro dot_lin_right) simp_all
    then show ?thesis by (simp add: k_def unit)
  qed
  have kk: "k * k \<noteq> 1"
  proof (cases "u ! 0 * u ! 0 = 1")
    case True
    then have "k = u ! 1" using D01 by (simp add: k_def e_def dot_unit_vec_right)
    moreover from first_two_squares[OF D] True unit have "u ! 1 * u ! 1 \<le> 0" by simp
    then have "u ! 1 = 0" by (smt (verit) zero_le_square mult_eq_0_iff)
    ultimately show ?thesis by simp
  next
    case False
    then have "k = u ! 0" using D01 by (simp add: k_def e_def dot_unit_vec_right)
    with False show ?thesis by simp
  qed
  then have nz: "dot w w \<noteq> 0" by (simp add: ww)
  show "length (complete_unit u) = length u" by (simp add: cu w_def le)
  show "dot (complete_unit u) (complete_unit u) = 1" by (simp add: cu normalize_unit[OF nz])
  have "dot u (normalize w) = dot (map (\<lambda>x. x / 1) u) (map (\<lambda>x. x / sqrt (dot w w)) w)"
    by (simp add: normalize_def)
  also have "\<dots> = dot u w / (1 * sqrt (dot w w))" by (rule dot_map_div)
  finally show "dot u (complete_unit u) = 0" by (simp add: cu uw)
qed

lemma svd_axis_props:
  assumes w: "svd_axis p q r = (x, y)"
  shows "x * x + y * y \<noteq> 0"
    and "x * (- y) * p + (x * x + y * (- y)) * q + y * x * r = 0"
proof -
  define d where "d = sqrt ((p - r) * (p - r) + 4 * q * q)"
  have "0 \<le> (p - r) * (p - r)" "0 \<le> q * q" by simp_all
  then have nn: "0 \<le> (p - r) * (p - r) + 4 * q * q" by linarith
  then have dd: "d * d = (p - r) * (p - r) + 4 * q * q"
    by (simp add: d_def)
  have d0: "0 \<le> d" using nn by (simp add: d_def)
  have cases: "(d = 0 \<and> x = 1 \<and> y = 0) \<or> (d \<noteq> 0 \<and> r \<le> p \<and> x = p - r + d \<and> y = 2 * q)
      \<or> (d \<noteq> 0 \<and> \<not> r \<le> p \<and> x = 2 * q \<and> y = r - p + d)"
    using w by (auto simp: svd_axis_def Let_def d_def split: if_splits)
  show "x * x + y * y \<noteq> 0"
  proof -
    have sq: "0 \<le> x * x" "0 \<le> y * y" by simp_all
    from cases consider "x = 1" | "0 < x" | "0 < y" using d0 by fastforce
    then show ?thesis
    proof cases
      case 1
      then have "x * x = 1" by simp
      with sq(2) show ?thesis by linarith
    next
      case 2
      then have "0 < x * x" by simp
      with sq show ?thesis by linarith
    next
      case 3
      then have "0 < y * y" by simp
      with sq show ?thesis by linarith
    qed
  qed
  show "x * (- y) * p + (x * x + y * (- y)) * q + y * x * r = 0"
  proof -
    from cases consider
      (zero) "d = 0" "x = 1" "y = 0"
      | (first) "x = p - r + d" "y = 2 * q"
      | (second) "x = 2 * q" "y = r - p + d" by blast
    then show ?thesis
    proof cases
      case zero
      from zero(1) dd have "(p - r) * (p - r) + 4 * q * q = 0" by simp
      moreover have "0 \<le> (p - r) * (p - r)" "0 \<le> q * q" by simp_all
      ultimately have "q * q = 0" by linarith
      then have "q = 0" by simp
      with zero show ?thesis by simp
    next
      case first
      have "x * (- y) * p + (x * x + y * (- y)) * q + y * x * r
          = q * (d * d - ((p - r) * (p - r) + 4 * q * q))"
        unfolding first by algebra
      then show ?thesis by (simp add: dd)
    next
      case second
      have "x * (- y) * p + (x * x + y * (- y)) * q + y * x * r
          = q * (((p - r) * (p - r) + 4 * q * q) - d * d)"
        unfolding second by algebra
      then show ?thesis by (simp add: dd)
    qed
  qed
qed

lemma rotated_products:
  fixes p q r x y :: real
  shows "(x * x * p + (x * y + y * x) * q + y * y * r)
           * ((- y) * (- y) * p + ((- y) * x + x * (- y)) * q + x * x * r)
         = (p * r - q * q) * ((x * x + y * y) * (x * x + y * y))
           + (x * (- y) * p + (x * x + y * (- y)) * q + y * x * r)
             * (x * (- y) * p + (x * x + y * (- y)) * q + y * x * r)"
  by algebra

text \<open>
  The model of the decomposition returns orthonormal columns with the rows of its
  argument, whatever the rank of the argument.
\<close>

lemma svd_left_orthonormal:
  assumes len: "length (fst B) = length (snd B)" and D: "2 \<le> length (fst B)"
  shows "orthonormal (svd_left B) \<and> length (fst (svd_left B)) = length (fst B)"
proof -
  define p where "p = dot (fst B) (fst B)"
  define q where "q = dot (fst B) (snd B)"
  define r where "r = dot (snd B) (snd B)"
  obtain x y where w: "svd_axis p q r = (x, y)" by (cases "svd_axis p q r")
  define c1 where "c1 = map2 (\<lambda>u v. u * x + v * y) (fst B) (snd B)"
  define c2 where "c2 = map2 (\<lambda>u v. u * (- y) + v * x) (fst B) (snd B)"
  have l1: "length c1 = length (fst B)" and l2: "length c2 = length (fst B)"
    using len by (simp_all add: c1_def c2_def)
  have s1: "dot c1 c1 = x * x * p + (x * y + y * x) * q + y * y * r"
    unfolding c1_def p_def q_def r_def by (rule dot_lin_lin[OF len])
  have s2: "dot c2 c2 = (- y) * (- y) * p + ((- y) * x + x * (- y)) * q + x * x * r"
    unfolding c2_def p_def q_def r_def by (rule dot_lin_lin[OF len])
  have "dot c1 c2 = x * (- y) * p + (x * x + y * (- y)) * q + y * x * r"
    unfolding c1_def c2_def p_def q_def r_def by (rule dot_lin_lin[OF len])
  then have c12: "dot c1 c2 = 0" using svd_axis_props(2)[OF w] by simp
  have "dot c1 c1 * dot c2 c2 = (p * r - q * q) * ((x * x + y * y) * (x * x + y * y))
      + (x * (- y) * p + (x * x + y * (- y)) * q + y * x * r)
        * (x * (- y) * p + (x * x + y * (- y)) * q + y * x * r)"
    unfolding s1 s2 by (rule rotated_products)
  also have "x * (- y) * p + (x * x + y * (- y)) * q + y * x * r = 0"
    by (rule svd_axis_props(2)[OF w])
  finally have prod: "dot c1 c1 * dot c2 c2 = (p * r - q * q) * ((x * x + y * y) * (x * x + y * y))"
    by simp
  have U: "svd_left B =
      (if p * r - q * q \<noteq> 0 then (normalize c1, normalize c2)
       else if dot c1 c1 \<noteq> 0 then (normalize c1, complete_unit (normalize c1))
       else (unit_vec (length (fst B)) 0, unit_vec (length (fst B)) 1))"
    by (simp add: svd_left_def Let_def p_def[symmetric] q_def[symmetric] r_def[symmetric] w
        c1_def c2_def)
  show ?thesis
  proof (cases "p * r - q * q \<noteq> 0")
    case True
    with prod svd_axis_props(1)[OF w] have "dot c1 c1 * dot c2 c2 \<noteq> 0" by simp
    then have nz: "dot c1 c1 \<noteq> 0" "dot c2 c2 \<noteq> 0" by simp_all
    show ?thesis
      using True l1 l2
      by (simp add: U orthonormal_def normalize_unit[OF nz(1)] normalize_unit[OF nz(2)]
          normalize_orthogonal[OF c12])
  next
    case rank: False
    show ?thesis
    proof (cases "dot c1 c1 \<noteq> 0")
      case True
      have u: "dot (normalize c1) (normalize c1) = 1" by (rule normalize_unit[OF True])
      have Dn: "2 \<le> length (normalize c1)" using D l1 by simp
      from complete_unit_props[OF u Dn] show ?thesis
        using rank True l1 by (simp add: U orthonormal_def u)
    next
      case False
      have D01: "0 < length (fst B)" "1 < length (fst B)" using D by linarith+
      show ?thesis
        using rank False D01 by (simp add: U orthonormal_def dot_unit_vecs)
    qed
  qed
qed

lemma svd_axis_order:
  assumes w: "svd_axis p q r = (x, y)"
  shows "(- y) * (- y) * p + ((- y) * x + x * (- y)) * q + x * x * r
         \<le> x * x * p + (x * y + y * x) * q + y * y * r"
proof -
  define d where "d = sqrt ((p - r) * (p - r) + 4 * q * q)"
  have "0 \<le> (p - r) * (p - r)" "0 \<le> q * q" by simp_all
  then have nn: "0 \<le> (p - r) * (p - r) + 4 * q * q" by linarith
  then have dd: "d * d = (p - r) * (p - r) + 4 * q * q"
    by (simp add: d_def)
  have d0: "0 \<le> d" using nn by (simp add: d_def)
  have n0: "0 \<le> x * x + y * y" by simp
  from w consider
    (zero) "d = 0" "x = 1" "y = 0"
    | (first) "x = p - r + d" "y = 2 * q"
    | (second) "x = 2 * q" "y = r - p + d"
    by (auto simp: svd_axis_def Let_def d_def split: if_splits)
  then show ?thesis
  proof cases
    case zero
    from zero(1) dd have "(p - r) * (p - r) + 4 * q * q = 0" by simp
    with \<open>0 \<le> (p - r) * (p - r)\<close> \<open>0 \<le> q * q\<close> have "(p - r) * (p - r) = 0" by linarith
    then have "p = r" by simp
    with zero show ?thesis by simp
  next
    case first
    have "(x * x * p + (x * y + y * x) * q + y * y * r)
        - ((- y) * (- y) * p + ((- y) * x + x * (- y)) * q + x * x * r) = d * (x * x + y * y)"
      unfolding first using dd by algebra
    moreover have "0 \<le> d * (x * x + y * y)" using d0 n0 by (rule mult_nonneg_nonneg)
    ultimately show ?thesis by linarith
  next
    case second
    have "(x * x * p + (x * y + y * x) * q + y * y * r)
        - ((- y) * (- y) * p + ((- y) * x + x * (- y)) * q + x * x * r) = d * (x * x + y * y)"
      unfolding second using dd by algebra
    moreover have "0 \<le> d * (x * x + y * y)" using d0 n0 by (rule mult_nonneg_nonneg)
    ultimately show ?thesis by linarith
  qed
qed

lemma recombine:
  "length (a::real list) = length b \<Longrightarrow>
   map2 (\<lambda>u1 u2. u1 * \<alpha> + u2 * \<beta>)
     (map (\<lambda>z. z / m1) (map2 (\<lambda>u v. u * x + v * y) a b))
     (map (\<lambda>z. z / m2) (map2 (\<lambda>u v. u * (- y) + v * x) a b))
   = map2 (\<lambda>u v. u * (x * \<alpha> / m1 - y * \<beta> / m2) + v * (y * \<alpha> / m1 + x * \<beta> / m2)) a b"
  by (induction a b rule: list_induct2)
     (simp_all add: algebra_simps add_divide_distrib diff_divide_distrib)

lemma map2_second_zero:
  "length us = length vs \<Longrightarrow> map2 (\<lambda>u v. u * \<alpha> + v * 0) us vs = map (\<lambda>u. u * \<alpha>) (us::real list)"
  by (induction us vs rule: list_induct2) simp_all

lemma both_zero:
  "length (a::real list) = length b \<Longrightarrow> x * x + y * y \<noteq> 0 \<Longrightarrow>
   map2 (\<lambda>u v. u * x + v * y) a b = replicate (length a) 0 \<Longrightarrow>
   map2 (\<lambda>u v. u * (- y) + v * x) a b = replicate (length a) 0 \<Longrightarrow>
   a = replicate (length a) 0 \<and> b = replicate (length a) 0"
proof (induction a b rule: list_induct2)
  case Nil
  then show ?case by simp
next
  case (Cons u us v vs)
  from Cons.prems have h1: "u * x + v * y = 0" and h2: "u * (- y) + v * x = 0"
    and t1: "map2 (\<lambda>u v. u * x + v * y) us vs = replicate (length us) 0"
    and t2: "map2 (\<lambda>u v. u * (- y) + v * x) us vs = replicate (length us) 0"
    by simp_all
  have "(x * x + y * y) * u = 0" using h1 h2 by algebra
  with Cons.prems(1) have u: "u = 0" by auto
  have "(x * x + y * y) * v = 0" using h1 h2 by algebra
  with Cons.prems(1) have v: "v = 0" by auto
  from Cons.IH[OF Cons.prems(1) t1 t2] u v show ?case by simp
qed

lemma second_zero_recombine:
  "length (a::real list) = length b \<Longrightarrow> x * x + y * y \<noteq> 0 \<Longrightarrow>
   map2 (\<lambda>u v. u * (- y) + v * x) a b = replicate (length a) 0 \<Longrightarrow>
   map (\<lambda>z. z * (x / (x * x + y * y))) (map2 (\<lambda>u v. u * x + v * y) a b) = a
   \<and> map (\<lambda>z. z * (y / (x * x + y * y))) (map2 (\<lambda>u v. u * x + v * y) a b) = b"
proof (induction a b rule: list_induct2)
  case Nil
  then show ?case by simp
next
  case (Cons u us v vs)
  from Cons.prems have h2: "u * (- y) + v * x = 0"
    and t2: "map2 (\<lambda>u v. u * (- y) + v * x) us vs = replicate (length us) 0"
    by simp_all
  have "(u * x + v * y) * x = (x * x + y * y) * u" using h2 by algebra
  then have 1: "(u * x + v * y) * (x / (x * x + y * y)) = u"
    using Cons.prems(1) by (simp add: field_simps)
  have "(u * x + v * y) * y = (x * x + y * y) * v" using h2 by algebra
  then have 2: "(u * x + v * y) * (y / (x * x + y * y)) = v"
    using Cons.prems(1) by (simp add: field_simps)
  from Cons.IH[OF Cons.prems(1) t2] 1 2 show ?case by simp
qed

lemma map2_both_zero:
  "length us = length vs \<Longrightarrow> map2 (\<lambda>u v. u * 0 + v * 0) us vs = replicate (length us) (0::real)"
  by (induction us vs rule: list_induct2) simp_all

text \<open>
  The model is the left factor of a singular value decomposition as the library documents
  it: \<open>B = U diag(s1, s2) Vh\<close> with \<open>s1 \<ge> s2 \<ge> 0\<close> and the rows \<open>(v1x, v1y)\<close>, \<open>(v2x, v2y)\<close> of
  \<open>Vh\<close> orthonormal.
\<close>

lemma svd_left_factorisation:
  assumes len: "length (fst B) = length (snd B)" and D: "2 \<le> length (fst B)"
  shows "\<exists>s1 s2 v1x v1y v2x v2y.
           0 \<le> s2 \<and> s2 \<le> s1
           \<and> v1x * v1x + v1y * v1y = 1 \<and> v2x * v2x + v2y * v2y = 1 \<and> v1x * v2x + v1y * v2y = 0
           \<and> fst B = map2 (\<lambda>u1 u2. u1 * (s1 * v1x) + u2 * (s2 * v2x))
                        (fst (svd_left B)) (snd (svd_left B))
           \<and> snd B = map2 (\<lambda>u1 u2. u1 * (s1 * v1y) + u2 * (s2 * v2y))
                        (fst (svd_left B)) (snd (svd_left B))"
proof -
  define p where "p = dot (fst B) (fst B)"
  define q where "q = dot (fst B) (snd B)"
  define r where "r = dot (snd B) (snd B)"
  obtain x y where w: "svd_axis p q r = (x, y)" by (cases "svd_axis p q r")
  define c1 where "c1 = map2 (\<lambda>u v. u * x + v * y) (fst B) (snd B)"
  define c2 where "c2 = map2 (\<lambda>u v. u * (- y) + v * x) (fst B) (snd B)"
  define k1 where "k1 = sqrt (dot c1 c1)"
  define k2 where "k2 = sqrt (dot c2 c2)"
  define n where "n = sqrt (x * x + y * y)"
  have l1: "length c1 = length (fst B)" and l2: "length c2 = length (fst B)"
    using len by (simp_all add: c1_def c2_def)
  have s1: "dot c1 c1 = x * x * p + (x * y + y * x) * q + y * y * r"
    unfolding c1_def p_def q_def r_def by (rule dot_lin_lin[OF len])
  have s2: "dot c2 c2 = (- y) * (- y) * p + ((- y) * x + x * (- y)) * q + x * x * r"
    unfolding c2_def p_def q_def r_def by (rule dot_lin_lin[OF len])
  have "dot c1 c1 * dot c2 c2 = (p * r - q * q) * ((x * x + y * y) * (x * x + y * y))
      + (x * (- y) * p + (x * x + y * (- y)) * q + y * x * r)
        * (x * (- y) * p + (x * x + y * (- y)) * q + y * x * r)"
    unfolding s1 s2 by (rule rotated_products)
  also have "x * (- y) * p + (x * x + y * (- y)) * q + y * x * r = 0"
    by (rule svd_axis_props(2)[OF w])
  finally have prod: "dot c1 c1 * dot c2 c2 = (p * r - q * q) * ((x * x + y * y) * (x * x + y * y))"
    by simp
  have ord: "dot c2 c2 \<le> dot c1 c1"
    unfolding s1 s2 by (rule svd_axis_order[OF w])
  have n2: "x * x + y * y \<noteq> 0" by (rule svd_axis_props(1)[OF w])
  have n2nn: "0 \<le> x * x + y * y" by simp
  with n2 have n2pos: "0 < x * x + y * y" by linarith
  have nn: "n * n = x * x + y * y" using n2nn by (simp add: n_def)
  have npos: "0 < n" unfolding n_def using n2pos by (rule real_sqrt_gt_zero)
  have k0: "0 \<le> k1" "0 \<le> k2" and k21: "k2 \<le> k1"
    using ord dot_self_nonneg[of c1] dot_self_nonneg[of c2] by (simp_all add: k1_def k2_def)
  have U: "svd_left B =
      (if p * r - q * q \<noteq> 0 then (normalize c1, normalize c2)
       else if dot c1 c1 \<noteq> 0 then (normalize c1, complete_unit (normalize c1))
       else (unit_vec (length (fst B)) 0, unit_vec (length (fst B)) 1))"
    by (simp add: svd_left_def Let_def p_def[symmetric] q_def[symmetric] r_def[symmetric] w
        c1_def c2_def)
  have nc1: "normalize c1 = map (\<lambda>z. z / k1) c1" and nc2: "normalize c2 = map (\<lambda>z. z / k2) c2"
    by (simp_all add: normalize_def k1_def k2_def)
  have V: "x / n * (x / n) + y / n * (y / n) = 1" "- y / n * (- y / n) + x / n * (x / n) = 1"
          "x / n * (- y / n) + y / n * (x / n) = 0"
  proof -
    have "x / n * (x / n) + y / n * (y / n) = (x * x + y * y) / (n * n)"
      by (simp add: add_divide_distrib)
    then show "x / n * (x / n) + y / n * (y / n) = 1" using n2 by (simp add: nn)
    have "- y / n * (- y / n) + x / n * (x / n) = (x * x + y * y) / (n * n)"
      by (simp add: add_divide_distrib)
    then show "- y / n * (- y / n) + x / n * (x / n) = 1" using n2 by (simp add: nn)
    show "x / n * (- y / n) + y / n * (x / n) = 0" by simp
  qed
  have S: "0 \<le> k2 / n" "k2 / n \<le> k1 / n"
    using k0 k21 npos by (simp_all add: divide_right_mono)
  have rec: "fst B = map2 (\<lambda>u1 u2. u1 * (k1 / n * (x / n)) + u2 * (k2 / n * (- y / n)))
                        (fst (svd_left B)) (snd (svd_left B))
           \<and> snd B = map2 (\<lambda>u1 u2. u1 * (k1 / n * (y / n)) + u2 * (k2 / n * (x / n)))
                        (fst (svd_left B)) (snd (svd_left B))"
  proof (cases "p * r - q * q \<noteq> 0")
    case True
    with prod n2 have "dot c1 c1 * dot c2 c2 \<noteq> 0" by simp
    then have kz: "k1 \<noteq> 0" "k2 \<noteq> 0" by (simp_all add: k1_def k2_def)
    have e1: "x * (k1 / n * (x / n)) / k1 - y * (k2 / n * (- y / n)) / k2 = 1"
    proof -
      have "x * (k1 / n * (x / n)) / k1 - y * (k2 / n * (- y / n)) / k2
          = x / n * (x / n) + y / n * (y / n)" using kz by simp
      then show ?thesis by (simp only: V)
    qed
    have e2: "y * (k1 / n * (x / n)) / k1 + x * (k2 / n * (- y / n)) / k2 = 0"
      using kz by simp
    have e3: "x * (k1 / n * (y / n)) / k1 - y * (k2 / n * (x / n)) / k2 = 0"
      using kz by simp
    have e4: "y * (k1 / n * (y / n)) / k1 + x * (k2 / n * (x / n)) / k2 = 1"
    proof -
      have "y * (k1 / n * (y / n)) / k1 + x * (k2 / n * (x / n)) / k2
          = x / n * (x / n) + y / n * (y / n)" using kz by simp
      then show ?thesis by (simp only: V)
    qed
    have a: "map2 (\<lambda>u1 u2. u1 * (k1 / n * (x / n)) + u2 * (k2 / n * (- y / n)))
               (map (\<lambda>z. z / k1) c1) (map (\<lambda>z. z / k2) c2) = fst B"
      unfolding c1_def c2_def recombine[OF len] e1 e2 by (rule lin_1_0[OF len])
    have b: "map2 (\<lambda>u1 u2. u1 * (k1 / n * (y / n)) + u2 * (k2 / n * (x / n)))
               (map (\<lambda>z. z / k1) c1) (map (\<lambda>z. z / k2) c2) = snd B"
      unfolding c1_def c2_def recombine[OF len] e3 e4 by (rule lin_0_1[OF len])
    show ?thesis using True a b by (simp add: U nc1 nc2)
  next
    case rank: False
    with prod have z: "dot c1 c1 * dot c2 c2 = 0" by simp
    show ?thesis
    proof (cases "dot c1 c1 \<noteq> 0")
      case True
      with z have "dot c2 c2 = 0" by simp
      then have k2z: "k2 = 0" and c2z: "c2 = replicate (length (fst B)) 0"
        using dot_self_zero[of c2] l2 by (simp_all add: k2_def)
      from True have k1z: "k1 \<noteq> 0" by (simp add: k1_def)
      have u: "dot (normalize c1) (normalize c1) = 1" by (rule normalize_unit[OF True])
      have Dn: "2 \<le> length (normalize c1)" using D l1 by simp
      have lc: "length (normalize c1) = length (complete_unit (normalize c1))"
        using complete_unit_props(1)[OF u Dn] by simp
      from second_zero_recombine[OF len n2 c2z[unfolded c2_def]]
      have ra: "map (\<lambda>z. z * (x / (x * x + y * y))) c1 = fst B"
        and rb: "map (\<lambda>z. z * (y / (x * x + y * y))) c1 = snd B"
        by (simp_all add: c1_def)
      have f1: "\<And>z. z / k1 * (k1 / n * (x / n)) = z * (x / (x * x + y * y))"
        using k1z by (simp add: nn[symmetric])
      have f2: "\<And>z. z / k1 * (k1 / n * (y / n)) = z * (y / (x * x + y * y))"
        using k1z by (simp add: nn[symmetric])
      have m1: "map (\<lambda>u. u * (k1 / n * (x / n))) (normalize c1)
              = map (\<lambda>z. z * (x / (x * x + y * y))) c1"
        unfolding nc1 map_map comp_def f1 ..
      have m2: "map (\<lambda>u. u * (k1 / n * (y / n))) (normalize c1)
              = map (\<lambda>z. z * (y / (x * x + y * y))) c1"
        unfolding nc1 map_map comp_def f2 ..
      have a: "map2 (\<lambda>u1 u2. u1 * (k1 / n * (x / n)) + u2 * 0)
                 (normalize c1) (complete_unit (normalize c1)) = fst B"
        unfolding map2_second_zero[OF lc] m1 by (rule ra)
      have b: "map2 (\<lambda>u1 u2. u1 * (k1 / n * (y / n)) + u2 * 0)
                 (normalize c1) (complete_unit (normalize c1)) = snd B"
        unfolding map2_second_zero[OF lc] m2 by (rule rb)
      show ?thesis using rank True a b by (simp add: U k2z)
    next
      case False
      then have c1z0: "dot c1 c1 = 0" by simp
      with ord dot_self_nonneg[of c2] have c2z0: "dot c2 c2 = 0" by linarith
      have c1z: "c1 = replicate (length (fst B)) 0" and c2z: "c2 = replicate (length (fst B)) 0"
        using dot_self_zero[OF c1z0] dot_self_zero[OF c2z0] l1 l2 by simp_all
      from both_zero[OF len n2 c1z[unfolded c1_def] c2z[unfolded c2_def]]
      have az: "fst B = replicate (length (fst B)) 0" and bz: "snd B = replicate (length (fst B)) 0"
        by simp_all
      have kz: "k1 = 0" "k2 = 0" by (simp_all add: k1_def k2_def c1z0 c2z0)
      have le: "length (unit_vec (length (fst B)) 0) = length (unit_vec (length (fst B)) 1)"
        by simp
      have "map2 (\<lambda>u v. u * 0 + v * 0) (unit_vec (length (fst B)) 0) (unit_vec (length (fst B)) 1)
          = replicate (length (fst B)) 0"
        using map2_both_zero[OF le] by simp
      then show ?thesis using rank False az bz by (simp add: U kz)
    qed
  qed
  show ?thesis
    by (intro exI[of _ "k1 / n"] exI[of _ "k2 / n"] exI[of _ "x / n"] exI[of _ "y / n"]
        exI[of _ "- y / n"] conjI S V)
       (use rec in \<open>simp_all add: V\<close>)
qed

lemma lstsq_total: "length y = length (fst A) \<Longrightarrow> \<exists>x. lstsq A y = Inr x"
  by (simp add: lstsq_def Let_def)

lemma init_affine_basis_total:
  assumes len: "length vec1 = length vec0" "length vec2 = length vec0"
  shows "\<exists>affine basis. init_affine_basis vec0 vec1 vec2 center = Inr (affine, basis)
           \<and> length affine = length vec0 \<and> length (fst basis) = length vec0
           \<and> length (snd basis) = length vec0"
proof -
  have "\<exists>affine basis. init_affine_basis vec0 vec1 vec2 center = Inr (affine, basis)"
  proof (cases "center = Some ''minnorm''")
    case False
    show ?thesis
    proof (cases "center = Some ''mean''")
      case True
      with init_affine_basis_mean[OF len] show ?thesis by blast
    next
      case nm: False
      with init_affine_basis_plain[OF len nm False] show ?thesis by blast
    qed
  next
    case True
    let ?a = "map2 (-) vec1 vec0" and ?b = "map2 (-) vec2 vec0"
    have la: "length ?a = length vec0" "length ?b = length vec0" using len by simp_all
    obtain sol where sol: "lstsq (?a, ?b) (map uminus vec0) = Inr sol"
      using lstsq_total[of "map uminus vec0" "(?a, ?b)"] la by auto
    have l2: "length sol = 2" by (rule lstsq_length[OF sol])
    let ?o = "map2 (\<lambda>u w. u * sol ! 0 + w * sol ! 1) ?a ?b"
    have lo: "length ?o = length vec0" using la by simp
    have mv: "mat_vec (?a, ?b) sol = Inr ?o" using mat_vec_lin[OF l2, of "(?a, ?b)"] by simp
    have "init_affine_basis vec0 vec1 vec2 center
        = Inr (map2 (+) vec0 ?o, (map2 (-) ?a ?o, map2 (-) ?b ?o))"
      using True len la lo
      by (simp add: init_affine_basis_def stack2_def mat_sub_col_def vsub_same_length
          vadd_same_length sol mv)
    then show ?thesis by blast
  qed
  then obtain affine basis where ab: "init_affine_basis vec0 vec1 vec2 center = Inr (affine, basis)"
    by blast
  from init_affine_basis_lengths[OF ab len] ab show ?thesis by blast
qed

lemma gram_det_short: "length a = length b \<Longrightarrow> length a < 2 \<Longrightarrow> gram_det (a, b) = 0"
proof -
  assume len: "length a = length b" and short: "length a < 2"
  show ?thesis
  proof (cases a)
    case Nil
    then show ?thesis by (simp add: gram_det_def)
  next
    case (Cons x xs)
    with short have xs: "xs = []" by simp
    with Cons len obtain y where b: "b = [y]" by (cases b) auto
    show ?thesis by (simp add: gram_det_def Cons xs b)
  qed
qed

text \<open>Points that are not collinear live in a space of dimension at least 2.\<close>

lemma noncollinear_dim:
  assumes "noncollinear vec0 vec1 vec2" "length vec1 = length vec0" "length vec2 = length vec0"
  shows "2 \<le> length vec0"
proof (rule ccontr)
  assume "\<not> 2 \<le> length vec0"
  then have "length (map2 (-) vec1 vec0) < 2" using assms(2) by simp
  moreover have "length (map2 (-) vec1 vec0) = length (map2 (-) vec2 vec0)"
    using assms(2,3) by simp
  ultimately have "gram_det (map2 (-) vec1 vec0, map2 (-) vec2 vec0) = 0"
    by (intro gram_det_short)
  with assms(1) show False by (simp add: noncollinear_def)
qed

text \<open>
  Both constructors, with \<open>svd_left\<close> for the decomposition, return a projector whose basis
  has orthonormal columns, whenever the vectors have one length \<open>D \<ge> 2\<close> and the scale is
  orthogonal.
\<close>

lemma constructed_basis_orthonormal:
  assumes center: "center \<in> {None, Some '''', Some ''mean'', Some ''minnorm''}"
    and scale: "scale \<in> {Some ''l2_ortho'', Some ''rms_ortho''}"
    and len: "length vec1 = length vec0" "length vec2 = length vec0"
    and D: "2 \<le> length vec0"
  shows "(\<exists>p. ll_ParamProjector svd_left vec0 vec1 vec2 center scale = Inr p
            \<and> orthonormal (p_basis p) \<and> length (fst (p_basis p)) = length vec0)
       \<and> (\<exists>q. pp_ParamProjector svd_left vec0 vec1 vec2 center scale = Inr q
            \<and> orthonormal (p_basis q) \<and> length (fst (p_basis q)) = length vec0)"
proof -
  from init_affine_basis_total[OF len] obtain affine basis where
    ab: "init_affine_basis vec0 vec1 vec2 center = Inr (affine, basis)"
    and la: "length affine = length vec0" and lb: "length (fst basis) = length vec0"
       "length (snd basis) = length vec0" by blast
  have o: "orthonormal (svd_left basis)" and lu: "length (fst (svd_left basis)) = length vec0"
    using svd_left_orthonormal[of basis] lb D by simp_all
  have ortho: "is_ortho scale" using scale by (simp add: is_ortho_def)
  have chk: "ll_init_checks 1 1 1 center scale = None" "pp_init_checks 1 1 1 center scale = None"
    using center scale by (auto simp: ll_init_checks_def pp_init_checks_def)
  have "ll_ParamProjector svd_left vec0 vec1 vec2 center scale
      = Inr \<lparr>p_center = center, p_scale = scale, p_dim = length vec0, p_affine = affine,
             p_basis = svd_left basis\<rparr>"
    unfolding ll_ParamProjector_def chk ab by (simp add: ortho)
  then have ll: "\<exists>p. ll_ParamProjector svd_left vec0 vec1 vec2 center scale = Inr p
            \<and> orthonormal (p_basis p) \<and> length (fst (p_basis p)) = length vec0"
    using o lu by simp
  obtain ai where ai: "lstsq basis affine = Inr ai"
    using lstsq_total[of affine basis] la lb by auto
  obtain ai' where ai': "matT_vec (svd_left basis) affine = Inr ai'"
    using la lu by (simp add: matT_vec_def)
  have "pp_ParamProjector svd_left vec0 vec1 vec2 center scale
      = Inr \<lparr>p_center = center, p_scale = scale, p_dim = length vec0, p_affine = affine,
             p_basis = svd_left basis, p_affine_inv = ai'\<rparr>"
    unfolding pp_ParamProjector_def chk ab by (simp add: ortho ai ai')
  then have "\<exists>q. pp_ParamProjector svd_left vec0 vec1 vec2 center scale = Inr q
            \<and> orthonormal (p_basis q) \<and> length (fst (p_basis q)) = length vec0"
    using o lu by simp
  with ll show ?thesis by blast
qed

text \<open>
  Claim C5 (a projector constructed with the scale \<^verbatim>\<open>l2_ortho\<close> or \<^verbatim>\<open>rms_ortho\<close> from vectors
  that are not collinear has a basis with \<open>basis.T @ basis = I(2)\<close>, and this is the basis
  every later \<^verbatim>\<open>project\<close> and \<^verbatim>\<open>map\<close> uses). With \<open>svd_left\<close> for the decomposition, in
  exact arithmetic, the constructor of each driver returns a projector whose basis has
  orthonormal columns of the length of the vectors, under every centering policy.
  \<^verbatim>\<open>project\<close>, \<^verbatim>\<open>map\<close> and \<^verbatim>\<open>__call__\<close> read the state and return a vector only (the functions
  \<open>project\<close>, \<open>map_coord\<close>, \<open>ll_call\<close>, \<open>pp_call\<close>): the basis they use is the constructed
  one.
\<close>

theorem C5_orthonormal_basis:
  assumes center: "center \<in> {None, Some '''', Some ''mean'', Some ''minnorm''}"
    and scale: "scale \<in> {Some ''l2_ortho'', Some ''rms_ortho''}"
    and len: "length vec1 = length vec0" "length vec2 = length vec0"
    and nc: "noncollinear vec0 vec1 vec2"
  shows "(\<exists>p. ll_ParamProjector svd_left vec0 vec1 vec2 center scale = Inr p
            \<and> orthonormal (p_basis p) \<and> length (fst (p_basis p)) = length vec0)
       \<and> (\<exists>q. pp_ParamProjector svd_left vec0 vec1 vec2 center scale = Inr q
            \<and> orthonormal (p_basis q) \<and> length (fst (p_basis q)) = length vec0)"
  using constructed_basis_orthonormal[OF center scale len noncollinear_dim[OF nc len]] .

text \<open>
  A check of C5 on differences \<open>(3, 0, 0)\<close> and \<open>(0, 4, 0)\<close>: the singular values are 4 and 3,
  so the first column of \<open>U\<close> lies along the second difference.
\<close>

lemma sqrt_49: "sqrt 49 = 7" and sqrt_56: "sqrt 3136 = 56" and sqrt_42: "sqrt 1764 = 42"
  by (rule real_sqrt_unique; simp)+

lemma w5: "ll_ParamProjector svd_left [1, 1, 1] [4, 1, 1] [1, 5, 1] None (Some ''l2_ortho'')
     = Inr \<lparr>p_center = None, p_scale = Some ''l2_ortho'', p_dim = 3, p_affine = [1, 1, 1],
            p_basis = ([0, 1, 0], [- 1, 0, 0])\<rparr>"
  by (simp add: pdefs svd_left_def svd_axis_def normalize_def sqrt_49 sqrt_56 sqrt_42)

theorem C5_orthonormal_basis_witness:
  "None \<in> {None, Some '''', Some ''mean'', Some ''minnorm''}
   \<and> Some ''l2_ortho'' \<in> {Some ''l2_ortho'', Some ''rms_ortho''}
   \<and> noncollinear [1, 1, 1] [4, 1, 1] [1, 5, 1]
   \<and> ll_ParamProjector svd_left [1, 1, 1] [4, 1, 1] [1, 5, 1] None (Some ''l2_ortho'')
     = Inr \<lparr>p_center = None, p_scale = Some ''l2_ortho'', p_dim = 3, p_affine = [1, 1, 1],
            p_basis = ([0, 1, 0], [- 1, 0, 0])\<rparr>
   \<and> orthonormal ([0, 1, 0], [- 1, 0, 0])"
proof -
  have c: "None \<in> {None, Some '''', Some ''mean'', Some ''minnorm''}"
    and s: "Some ''l2_ortho'' \<in> {Some ''l2_ortho'', Some ''rms_ortho''}" by simp_all
  have l: "length [4, 1, 1 :: real] = length [1, 1, 1 :: real]"
          "length [1, 5, 1 :: real] = length [1, 1, 1 :: real]" by simp_all
  have nc: "noncollinear [1, 1, 1] [4, 1, 1] [1, 5, 1]"
    by (simp add: noncollinear_def gram_det_def)
  from C5_orthonormal_basis[OF c s l nc] obtain p where
    "ll_ParamProjector svd_left [1, 1, 1] [4, 1, 1] [1, 5, 1] None (Some ''l2_ortho'') = Inr p"
    "orthonormal (p_basis p)" by blast
  with w5 have "orthonormal ([0, 1, 0], [- 1, 0, 0])" by simp
  with c s nc w5 show ?thesis by blast
qed

end
